theory Spec2Isabelle
  imports Complex_Main "HOL-Library.Log_Nat"
begin

section \<open>Data of yara\_rule\_tester.py\<close>

text \<open>
  A compiled YARA rule is opaque to the tester: all the script does with one is call
  \<^verbatim>\<open>rule.match(data=text)\<close> and look at the list of matches. It is modelled by the function
  from the scanned text to the names of the matches. \<^verbatim>\<open>yara.compile(filepath=...)\<close> either
  returns such a rule or raises \<^verbatim>\<open>yara.SyntaxError\<close> or another \<^verbatim>\<open>yara.Error\<close>.
\<close>

type_synonym yara_rules = "string \<Rightarrow> string list"

datatype compile_result =
    Compiled yara_rules
  | YaraSyntaxError string
  | YaraError string

text \<open>One entry of the configuration's \<^verbatim>\<open>proxies\<close> list, with the keys the script
  reads. The key \<^verbatim>\<open>should_be_false\<close> may be absent (it is read with
  \<^verbatim>\<open>.get('should_be_false', [])\<close>); the other keys are read with \<^verbatim>\<open>[...]\<close> and are
  taken to be present, as section 6 of the specification requires.\<close>

record ruleset_paths =
  should_be_true :: "string list"
  should_be_false :: "string list option"

record proxy_entry =
  ip :: string
  proxy :: string
  yara_ruleset :: ruleset_paths

text \<open>A row of \<^verbatim>\<open>ssl_logs\<close>: rowid, id, headers (NULL is \<open>None\<close>), ip.\<close>

type_synonym row = "int \<times> string \<times> string option \<times> string"

text \<open>The three module-level globals set from the command line.\<close>

record flags =
  verbose :: bool
  list_flag :: "string option"
  specific_proxy :: "string option"

text \<open>The six counters of one ruleset's pass (lines 71--76).\<close>

record counters =
  total :: int
  total_from_proxy :: int
  total_not_from_proxy :: int
  fail :: int
  fail_from_proxy :: int
  fail_not_from_proxy :: int

text \<open>
  What a run does to the outside, in order. Every \<^verbatim>\<open>print\<close> of the script is one
  constructor carrying the values interpolated into its f-string (a number is carried as
  its value; the \<^verbatim>\<open>:.2f\<close> rendering is not modelled). \<open>OpenConfig\<close> and \<open>SqlQuery\<close> record
  the two reads of the outside world: loading the configuration file and querying the
  database.
\<close>

datatype event =
    Usage
  | SettingVerbose
  | OpenConfig string
  | SqlQuery string
  | SqliteErrorMsg string
  | ParsingRuleset string
  | LoadingRule string
  | YaraSyntaxErrorMsg string
  | YaraErrorMsg string
  | FailureNotFromProxy string string string
  | Success string string string
  | FailureFromProxy string string string
  | Listed string string string string
  | TotalRequestsParsed int
  | ConfusionMatrix
  | Cell string int rat
  | Blank
  | Precision rat
  | Recall rat
  | F1Score rat

datatype py_exception = ZeroDivisionError | ConfigError string

text \<open>How a computation stops early: \<^verbatim>\<open>sys.exit(n)\<close>, or an exception nobody catches.\<close>

datatype abort = SystemExit int | Uncaught py_exception

type_synonym 'a io = "event list \<times> (abort + 'a)"

text \<open>
  What one run is given from outside the script: the configuration loader, the database,
  the YARA compiler, and the two string methods of Python the script calls,
  \<^verbatim>\<open>str.lower\<close> and \<^verbatim>\<open>str.upper\<close>. A Python string is modelled by the list of its bytes
  in UTF-8 (so equality, emptiness, \<^verbatim>\<open>startswith\<close> and the split at \<^verbatim>\<open>=\<close> are those of
  the string); the case mappings follow the interpreter's Unicode tables and are left
  open. None of these is changed by the script.
\<close>

record world =
  safe_load :: "string \<Rightarrow> py_exception + proxy_entry list"
  fetchall :: "string \<Rightarrow> string + row list"
  yara_compile :: "string \<Rightarrow> compile_result"
  str_lower :: "string \<Rightarrow> string"
  str_upper :: "string \<Rightarrow> string"

section \<open>Sequencing of output and early exits\<close>

definition io_print :: "event \<Rightarrow> unit io" where
  "io_print e = ([e], Inr ())"

definition io_eval :: "py_exception + 'a \<Rightarrow> 'a io" where
  "io_eval r = (case r of Inl e \<Rightarrow> ([], Inl (Uncaught e)) | Inr v \<Rightarrow> ([], Inr v))"

definition io_bind :: "'a io \<Rightarrow> ('a \<Rightarrow> 'b io) \<Rightarrow> 'b io" where
  "io_bind m f =
     (case m of
        (evs, Inl a) \<Rightarrow> (evs, Inl a)
      | (evs, Inr x) \<Rightarrow> (case f x of (evs', r) \<Rightarrow> (evs @ evs', r)))"

section \<open>Strings\<close>

text \<open>\<^verbatim>\<open>s.split(sep)\<close> for a one-character separator.\<close>

fun split :: "char \<Rightarrow> string \<Rightarrow> string list" where
  "split sep [] = [[]]"
| "split sep (c # cs) =
     (if c = sep then [] # split sep cs
      else (case split sep cs of [] \<Rightarrow> [[c]] | w # ws \<Rightarrow> (c # w) # ws))"

definition startswith :: "string \<Rightarrow> string \<Rightarrow> bool" where
  "startswith s pre = (take (length pre) s = pre)"

section \<open>parse\_config, load\_yara\_rules, scan\_text, print\_list\<close>

text \<open>Lines 10--21: the entries are split into three parallel lists.\<close>

definition parse_config ::
  "world \<Rightarrow> string \<Rightarrow> py_exception + (string list \<times> string list \<times> ruleset_paths list)" where
  "parse_config w config_file =
     (case safe_load w config_file of
        Inl e \<Rightarrow> Inl e
      | Inr proxy_entries \<Rightarrow>
          Inr (map ip proxy_entries, map proxy proxy_entries, map yara_ruleset proxy_entries))"

text \<open>Lines 23--37. The loop carries the list \<open>rules\<close> compiled so far; the first file
  that does not compile prints its diagnostic and exits with status 1.\<close>

fun load_loop :: "(string \<Rightarrow> compile_result) \<Rightarrow> string list \<Rightarrow> yara_rules list \<Rightarrow> yara_rules list io" where
  "load_loop compile [] rules = ([], Inr rules)"
| "load_loop compile (yara_rule_path # rest) rules =
     io_bind (io_print (LoadingRule yara_rule_path)) (\<lambda>_.
       case compile yara_rule_path of
         Compiled rule \<Rightarrow> load_loop compile rest (rules @ [rule])
       | YaraSyntaxError e \<Rightarrow> ([YaraSyntaxErrorMsg e], Inl (SystemExit 1))
       | YaraError e \<Rightarrow> ([YaraErrorMsg e], Inl (SystemExit 1)))"

definition load_yara_rules :: "(string \<Rightarrow> compile_result) \<Rightarrow> string list \<Rightarrow> yara_rules list io" where
  "load_yara_rules compile yara_rules_paths = load_loop compile yara_rules_paths []"

text \<open>Lines 39--44: \<^verbatim>\<open>matches.extend(rule.match(data=text))\<close> for each rule in turn.\<close>

definition scan_text :: "yara_rules list \<Rightarrow> string \<Rightarrow> string list" where
  "scan_text rules text = fold (\<lambda>rule matches. matches @ rule text) rules []"

text \<open>Lines 46--48.\<close>

definition print_list :: "flags \<Rightarrow> string \<Rightarrow> string \<Rightarrow> string \<Rightarrow> string \<Rightarrow> event list" where
  "print_list fl flag id_text headers_text proxy_detected =
     (if list_flag fl = Some flag then [Listed flag id_text headers_text proxy_detected] else [])"

section \<open>The pass over the rows (lines 77--106)\<close>

text \<open>The test of line 81, \<^verbatim>\<open>matches_true and not matches_false\<close>, on the two lists
  computed in lines 79--80. A list is true in Python when it is not empty.\<close>

definition detected :: "yara_rules list \<Rightarrow> yara_rules list \<Rightarrow> string \<Rightarrow> bool" where
  "detected rules_true rules_false headers_text =
     (let matches_true = scan_text rules_true headers_text;
          matches_false = scan_text rules_false headers_text
      in matches_true \<noteq> [] \<and> matches_false = [])"

text \<open>The body of the row loop. \<open>ips_i\<close> and \<open>proxies_i\<close> are \<^verbatim>\<open>ips[i]\<close> and
  \<^verbatim>\<open>proxies[i]\<close>. The true-negative branch has no verbose message.\<close>

definition scan_row ::
  "flags \<Rightarrow> yara_rules list \<Rightarrow> yara_rules list \<Rightarrow> string \<Rightarrow> string \<Rightarrow> row \<Rightarrow> counters
     \<Rightarrow> event list \<times> counters" where
  "scan_row fl rules_true rules_false ips_i proxies_i r c =
     (case r of (rowid, id_text, headers_text, ip_text) \<Rightarrow>
        (case (case headers_text of
                 None \<Rightarrow> ([], c)
               | Some h \<Rightarrow>
                   if h = [] then ([], c)
                   else if detected rules_true rules_false h then
                     (if ip_text \<noteq> ips_i then
                        ((if verbose fl then [FailureNotFromProxy id_text proxies_i h] else [])
                           @ print_list fl ''FP'' id_text h proxies_i,
                         c\<lparr>fail := fail c + 1,
                           fail_not_from_proxy := fail_not_from_proxy c + 1,
                           total_not_from_proxy := total_not_from_proxy c + 1\<rparr>)
                      else
                        ((if verbose fl then [Success id_text proxies_i h] else [])
                           @ print_list fl ''TP'' id_text h proxies_i,
                         c\<lparr>total_from_proxy := total_from_proxy c + 1\<rparr>))
                   else
                     (if ip_text = ips_i then
                        ((if verbose fl then [FailureFromProxy id_text proxies_i h] else [])
                           @ print_list fl ''FN'' id_text h proxies_i,
                         c\<lparr>fail := fail c + 1,
                           fail_from_proxy := fail_from_proxy c + 1,
                           total_from_proxy := total_from_proxy c + 1\<rparr>)
                      else
                        (print_list fl ''TN'' id_text h proxies_i,
                         c\<lparr>total_not_from_proxy := total_not_from_proxy c + 1\<rparr>)))
         of (evs, c') \<Rightarrow> (evs, c'\<lparr>total := total c' + 1\<rparr>)))"

fun scan_rows ::
  "flags \<Rightarrow> yara_rules list \<Rightarrow> yara_rules list \<Rightarrow> string \<Rightarrow> string \<Rightarrow> row list \<Rightarrow> counters
     \<Rightarrow> event list \<times> counters" where
  "scan_rows fl rules_true rules_false ips_i proxies_i [] c = ([], c)"
| "scan_rows fl rules_true rules_false ips_i proxies_i (r # rows) c =
     (case scan_row fl rules_true rules_false ips_i proxies_i r c of
        (evs, c') \<Rightarrow>
          (case scan_rows fl rules_true rules_false ips_i proxies_i rows c' of
             (evs', c'') \<Rightarrow> (evs @ evs', c'')))"

text \<open>Lines 71--76.\<close>

definition zero_counters :: counters where
  "zero_counters =
     \<lparr>total = 0, total_from_proxy = 0, total_not_from_proxy = 0,
      fail = 0, fail_from_proxy = 0, fail_not_from_proxy = 0\<rparr>"

section \<open>Confusion matrix, metrics and summary (lines 108--129)\<close>

definition TP :: "counters \<Rightarrow> int" where
  "TP c = total_from_proxy c - fail_from_proxy c"

definition FP :: "counters \<Rightarrow> int" where
  "FP c = fail_not_from_proxy c"

definition TN :: "counters \<Rightarrow> int" where
  "TN c = total_not_from_proxy c - fail_not_from_proxy c"

definition FN :: "counters \<Rightarrow> int" where
  "FN c = fail_from_proxy c"

subsection \<open>Python's floats\<close>

text \<open>
  A Python float is an IEEE 754 binary64 number; it is modelled by the rational number it
  stands for. Every operation returns the exact result rounded to the nearest such number,
  ties going to the even significand. \<open>round_even\<close> rounds to an integer; \<open>exponent x\<close>
  is, for a positive \<open>x\<close>, the integer \<open>e\<close> with \<open>2 powi e \<le> x < 2 powi (e + 1)\<close>;
  \<open>round_double\<close> keeps 53 significant bits, and fewer for magnitudes below
  \<open>2 powi (- 1022)\<close>, where the spacing stays \<open>2 powi (- 1074)\<close>. Results of magnitude
  \<open>2 powi 1024\<close> and above, which Python turns into an \<^verbatim>\<open>OverflowError\<close> or into infinity,
  are not modelled: no quotient of a summary exceeds 100 when the counters come from a
  pass over the rows.
\<close>

definition round_even :: "rat \<Rightarrow> int" where
  "round_even y =
     (let f = \<lfloor>y\<rfloor>; d = y - of_int f
      in if d < 1 / 2 then f else if 1 / 2 < d then f + 1 else if even f then f else f + 1)"

definition exponent :: "rat \<Rightarrow> int" where
  "exponent x =
     (case quotient_of x of
        (p, q) \<Rightarrow> let e = bitlen p - bitlen q in if 2 powi e \<le> x then e else e - 1)"

definition round_double :: "rat \<Rightarrow> rat" where
  "round_double x =
     (if x = 0 then 0
      else let a = \<bar>x\<bar>;
               k = max (exponent a - 52) (- 1074);
               m = round_even (a / 2 powi k)
           in sgn x * of_int m * 2 powi k)"

text \<open>Python's \<^verbatim>\<open>/\<close>, on two integers or two floats: it raises on a zero divisor and
  otherwise gives the float nearest to the quotient.\<close>

definition truediv :: "rat \<Rightarrow> rat \<Rightarrow> py_exception + rat" where
  "truediv a b = (if b = 0 then Inl ZeroDivisionError else Inr (round_double (a / b)))"

text \<open>Lines 114--116. In \<^verbatim>\<open>2 * (precision * recall) / (precision + recall)\<close> the
  product, its double and the sum are floats, each rounded.\<close>

definition precision_of :: "counters \<Rightarrow> py_exception + rat" where
  "precision_of c =
     (if TP c + FP c > 0 then truediv (of_int (TP c)) (of_int (TP c + FP c)) else Inr 0)"

definition recall_of :: "counters \<Rightarrow> py_exception + rat" where
  "recall_of c =
     (if TP c + FN c > 0 then truediv (of_int (TP c)) (of_int (TP c + FN c)) else Inr 0)"

definition f1_score_of :: "rat \<Rightarrow> rat \<Rightarrow> py_exception + rat" where
  "f1_score_of precision recall =
     (if round_double (precision + recall) > 0
      then truediv (round_double (2 * round_double (precision * recall)))
             (round_double (precision + recall))
      else Inr 0)"

text \<open>The percentage \<^verbatim>\<open>100 * X/total\<close> of a summary line.\<close>

definition percent :: "int \<Rightarrow> int \<Rightarrow> py_exception + rat" where
  "percent x tot = truediv (of_int (100 * x)) (of_int tot)"

definition summary :: "counters \<Rightarrow> unit io" where
  "summary c =
     io_bind (io_eval (precision_of c)) (\<lambda>precision.
     io_bind (io_eval (recall_of c)) (\<lambda>recall.
     io_bind (io_eval (f1_score_of precision recall)) (\<lambda>f1_score.
     io_bind (io_print (TotalRequestsParsed (total c))) (\<lambda>_.
     io_bind (io_print ConfusionMatrix) (\<lambda>_.
     io_bind (io_eval (percent (TP c) (total c))) (\<lambda>p.
     io_bind (io_print (Cell ''TP'' (TP c) p)) (\<lambda>_.
     io_bind (io_eval (percent (FP c) (total c))) (\<lambda>p.
     io_bind (io_print (Cell ''FP'' (FP c) p)) (\<lambda>_.
     io_bind (io_eval (percent (TN c) (total c))) (\<lambda>p.
     io_bind (io_print (Cell ''TN'' (TN c) p)) (\<lambda>_.
     io_bind (io_eval (percent (FN c) (total c))) (\<lambda>p.
     io_bind (io_print (Cell ''FN'' (FN c) p)) (\<lambda>_.
     io_bind (io_print Blank) (\<lambda>_.
     io_bind (io_print (Precision precision)) (\<lambda>_.
     io_bind (io_print (Recall recall)) (\<lambda>_.
     io_bind (io_print (F1Score f1_score)) (\<lambda>_.
     io_print Blank)))))))))))))))))"

section \<open>The loop over the rulesets and the entry point\<close>

text \<open>Line 65: \<^verbatim>\<open>specific_proxy and proxies[i].lower() != specific_proxy.lower()\<close>.
  \<open>None\<close> and the empty string are both false in Python.\<close>

definition skipped :: "(string \<Rightarrow> string) \<Rightarrow> flags \<Rightarrow> string \<Rightarrow> bool" where
  "skipped lower fl proxies_i =
     (case specific_proxy fl of
        None \<Rightarrow> False
      | Some sp \<Rightarrow> sp \<noteq> [] \<and> lower proxies_i \<noteq> lower sp)"

text \<open>Lines 68--129 for one ruleset that is not skipped.\<close>

definition evaluate ::
  "(string \<Rightarrow> compile_result) \<Rightarrow> flags \<Rightarrow> row list \<Rightarrow> string \<Rightarrow> string \<Rightarrow> ruleset_paths \<Rightarrow> unit io" where
  "evaluate compile fl rows ips_i proxies_i paths =
     io_bind (io_print (ParsingRuleset proxies_i)) (\<lambda>_.
     io_bind (load_yara_rules compile (should_be_true paths)) (\<lambda>rules_true.
     io_bind (load_yara_rules compile
                (case should_be_false paths of None \<Rightarrow> [] | Some ps \<Rightarrow> ps)) (\<lambda>rules_false.
       case scan_rows fl rules_true rules_false ips_i proxies_i rows zero_counters of
         (evs, c) \<Rightarrow> io_bind (evs, Inr ()) (\<lambda>_. summary c))))"

text \<open>
  Lines 64--129. \<^verbatim>\<open>parse_config\<close> fills \<open>ips\<close>, \<open>proxies\<close> and \<open>yara_rules_paths\<close> in
  step, so iteration \<open>i\<close> of \<^verbatim>\<open>enumerate(yara_rules_paths)\<close> sees the \<open>i\<close>-th element of
  each: the loop runs over the three lists zipped.
\<close>

fun ruleset_loop ::
  "(string \<Rightarrow> string) \<Rightarrow> (string \<Rightarrow> compile_result) \<Rightarrow> flags \<Rightarrow> row list
     \<Rightarrow> (string \<times> string \<times> ruleset_paths) list \<Rightarrow> unit io" where
  "ruleset_loop lower compile fl rows [] = ([], Inr ())"
| "ruleset_loop lower compile fl rows ((ips_i, proxies_i, paths) # rest) =
     (if skipped lower fl proxies_i then ruleset_loop lower compile fl rows rest
      else io_bind (evaluate compile fl rows ips_i proxies_i paths)
             (\<lambda>_. ruleset_loop lower compile fl rows rest))"

text \<open>Lines 50--134. An \<^verbatim>\<open>sqlite3.Error\<close> is the only exception caught; \<^verbatim>\<open>SystemExit\<close>
  and \<^verbatim>\<open>ZeroDivisionError\<close> pass through the handler.\<close>

definition scan_sqlite_database :: "world \<Rightarrow> flags \<Rightarrow> string \<Rightarrow> string \<Rightarrow> unit io" where
  "scan_sqlite_database w fl db_path config_file =
     io_bind (io_print (OpenConfig config_file)) (\<lambda>_.
     io_bind (io_eval (parse_config w config_file)) (\<lambda>(ips, proxies, yara_rules_paths).
     io_bind (io_print (SqlQuery db_path)) (\<lambda>_.
       case fetchall w db_path of
         Inl e \<Rightarrow> ([SqliteErrorMsg e], Inl (SystemExit 1))
       | Inr rows \<Rightarrow>
           ruleset_loop (str_lower w) (yara_compile w) fl rows
             (zip ips (zip proxies yara_rules_paths)))))"

text \<open>Lines 142--149: one optional argument. In the two \<^verbatim>\<open>split("=")[1]\<close> the argument
  starts with a prefix that holds an \<^verbatim>\<open>=\<close>, so element 1 exists.\<close>

definition parse_arg ::
  "(string \<Rightarrow> string) \<Rightarrow> string \<Rightarrow> event list \<times> flags \<Rightarrow> event list \<times> flags" where
  "parse_arg upper arg s =
     (case s of (evs, fl) \<Rightarrow>
        if arg = ''-v'' then (evs @ [SettingVerbose], fl\<lparr>verbose := True\<rparr>)
        else if startswith arg ''flag='' then
          (evs, fl\<lparr>list_flag := Some (upper (split (CHR ''='') arg ! 1))\<rparr>)
        else if startswith arg ''proxy='' then
          (evs, fl\<lparr>specific_proxy := Some (split (CHR ''='') arg ! 1)\<rparr>)
        else (evs, fl))"

text \<open>Lines 6--8.\<close>

definition initial_flags :: flags where
  "initial_flags = \<lparr>verbose = False, list_flag = None, specific_proxy = None\<rparr>"

text \<open>Lines 136--151; \<open>argv\<close> is \<^verbatim>\<open>sys.argv\<close>, the script's name first.\<close>

definition main :: "world \<Rightarrow> string list \<Rightarrow> unit io" where
  "main w argv =
     (if length argv < 3 then ([Usage], Inl (SystemExit 1))
      else
        (case fold (parse_arg (str_upper w)) (drop 3 argv) ([], initial_flags) of
           (evs, fl) \<Rightarrow>
             io_bind (evs, Inr ()) (\<lambda>_. scan_sqlite_database w fl (argv ! 1) (argv ! 2))))"

section \<open>Notions used to state the properties\<close>

text \<open>
  The table of section 4.2 of the specification, read off for one record: the cell it
  belongs to, or \<open>None\<close> for a record whose payload is absent or empty. The outcome is
  the test \<open>detected\<close>; the record belongs to the identity when its origin address equals
  the ground-truth address.
\<close>

definition spec_cell ::
  "yara_rules list \<Rightarrow> yara_rules list \<Rightarrow> string \<Rightarrow> row \<Rightarrow> string option" where
  "spec_cell positive negative ground_truth_address r =
     (case r of (row_id, external_id, payload, origin_address) \<Rightarrow>
        (case payload of
           None \<Rightarrow> None
         | Some text \<Rightarrow>
             if text = [] then None
             else if detected positive negative text then
               (if origin_address = ground_truth_address then Some ''TP'' else Some ''FP'')
             else
               (if origin_address = ground_truth_address then Some ''FN'' else Some ''TN'')))"

text \<open>The number of records of a list that the table puts into a given cell.\<close>

definition count_cell ::
  "yara_rules list \<Rightarrow> yara_rules list \<Rightarrow> string \<Rightarrow> string option \<Rightarrow> row list \<Rightarrow> int" where
  "count_cell positive negative ground_truth_address cell rows =
     int (length (filter (\<lambda>r. spec_cell positive negative ground_truth_address r = cell) rows))"

text \<open>A record with an absent or empty payload.\<close>

definition no_payload :: "row \<Rightarrow> bool" where
  "no_payload r =
     (case r of (rowid, id_text, headers_text, ip_text) \<Rightarrow>
        headers_text = None \<or> headers_text = Some [])"

text \<open>Precision and recall as section 4.2 of the specification gives them
  (\<open>finalize\<close>), as exact rational numbers.\<close>

definition spec_precision :: "counters \<Rightarrow> rat" where
  "spec_precision c = (if TP c + FP c > 0 then of_int (TP c) / of_int (TP c + FP c) else 0)"

definition spec_recall :: "counters \<Rightarrow> rat" where
  "spec_recall c = (if TP c + FN c > 0 then of_int (TP c) / of_int (TP c + FN c) else 0)"


text \<open>The three floats the script computes in lines 114--116, for counters \<open>c\<close>.\<close>

definition float_precision :: "counters \<Rightarrow> rat" where
  "float_precision c =
     (if TP c + FP c > 0 then round_double (of_int (TP c) / of_int (TP c + FP c)) else 0)"

definition float_recall :: "counters \<Rightarrow> rat" where
  "float_recall c =
     (if TP c + FN c > 0 then round_double (of_int (TP c) / of_int (TP c + FN c)) else 0)"

definition float_f1 :: "rat \<Rightarrow> rat \<Rightarrow> rat" where
  "float_f1 p r =
     (if round_double (p + r) > 0
      then round_double (round_double (2 * round_double (p * r)) / round_double (p + r))
      else 0)"

text \<open>The rule files of a ruleset in the order in which lines 69--70 load them.\<close>

definition rule_files :: "ruleset_paths \<Rightarrow> string list" where
  "rule_files paths =
     should_be_true paths @ (case should_be_false paths of None \<Rightarrow> [] | Some ps \<Rightarrow> ps)"

text \<open>The messages about single records: the three verbose lines and the line of
  \<open>print_list\<close>. \<open>summary_lines\<close> is what is left of an output without them.\<close>

fun per_record :: "event \<Rightarrow> bool" where
  "per_record (FailureNotFromProxy _ _ _) = True"
| "per_record (Success _ _ _) = True"
| "per_record (FailureFromProxy _ _ _) = True"
| "per_record (Listed _ _ _ _) = True"
| "per_record _ = False"

definition summary_lines :: "event list \<Rightarrow> event list" where
  "summary_lines evs = filter (\<lambda>e. \<not> per_record e) evs"

text \<open>Whether a file compiled, the rule it compiled to, and the line printed when it did
  not (lines 31--36).\<close>

fun is_compiled :: "compile_result \<Rightarrow> bool" where
  "is_compiled (Compiled _) = True"
| "is_compiled _ = False"

fun rule_of :: "compile_result \<Rightarrow> yara_rules" where
  "rule_of (Compiled rule) = rule"
| "rule_of _ = (\<lambda>_. [])"

fun diagnostic :: "compile_result \<Rightarrow> event list" where
  "diagnostic (Compiled _) = []"
| "diagnostic (YaraSyntaxError e) = [YaraSyntaxErrorMsg e]"
| "diagnostic (YaraError e) = [YaraErrorMsg e]"

section \<open>An example configuration, database and compiler\<close>

text \<open>The case mappings of the example: those of Python on strings of ASCII characters
  (other bytes are left alone).\<close>

definition ascii_lower :: "string \<Rightarrow> string" where
  "ascii_lower s =
     map (\<lambda>c. let n = (of_char c :: nat) in if 65 \<le> n \<and> n \<le> 90 then char_of (n + 32) else c) s"

definition ascii_upper :: "string \<Rightarrow> string" where
  "ascii_upper s =
     map (\<lambda>c. let n = (of_char c :: nat) in if 97 \<le> n \<and> n \<le> 122 then char_of (n - 32) else c) s"

definition example_compile :: "string \<Rightarrow> compile_result" where
  "example_compile path =
     (if path = ''acme.yar'' then Compiled (\<lambda>t. if t = ''Via: acme'' then [''acme_via''] else [])
      else if path = ''direct.yar'' then Compiled (\<lambda>t. if t = ''plain'' then [''direct''] else [])
      else if path = ''broken.yar'' then YaraSyntaxError ''broken.yar(1): syntax error''
      else YaraError ''could not open file'')"

definition example_rows :: "row list" where
  "example_rows =
     [(1, ''a'', Some ''Via: acme'', ''1.2.3.4''),
      (2, ''b'', Some ''Via: acme'', ''9.9.9.9''),
      (3, ''c'', None, ''1.2.3.4''),
      (4, ''d'', Some ''plain'', ''1.2.3.4'')]"

definition example_entries :: "proxy_entry list" where
  "example_entries =
     [\<lparr>ip = ''1.2.3.4'', proxy = ''Acme'',
       yara_ruleset = \<lparr>should_be_true = [''acme.yar''], should_be_false = Some [''direct.yar'']\<rparr>\<rparr>,
      \<lparr>ip = ''5.6.7.8'', proxy = ''Other'',
       yara_ruleset = \<lparr>should_be_true = [''acme.yar''],
                       should_be_false = Some [''direct.yar'', ''broken.yar'']\<rparr>\<rparr>]"

definition example_world :: world where
  "example_world =
     \<lparr>safe_load = (\<lambda>f. if f = ''config.yaml'' then Inr example_entries
                        else Inl (ConfigError ''no such file'')),
      fetchall = (\<lambda>db. if db = ''logs.db'' then Inr example_rows
                        else if db = ''empty.db'' then Inr []
                        else Inl ''unable to open database file''),
      yara_compile = example_compile,
      str_lower = ascii_lower,
      str_upper = ascii_upper\<rparr>"

section \<open>Facts about the rounding of floats\<close>

lemma round_even_cases:
  "round_even y = \<lfloor>y\<rfloor> \<or> round_even y = \<lfloor>y\<rfloor> + 1"
  by (simp add: round_even_def Let_def)

lemma round_even_of_int [simp]: "round_even (of_int n) = n"
  by (simp add: round_even_def)

lemma round_even_lower: "y < of_int \<lfloor>y\<rfloor> + 1 / 2 \<Longrightarrow> round_even y = \<lfloor>y\<rfloor>"
  by (simp add: round_even_def Let_def algebra_simps)

lemma round_even_upper: "of_int \<lfloor>y\<rfloor> + 1 / 2 < y \<Longrightarrow> round_even y = \<lfloor>y\<rfloor> + 1"
  by (simp add: round_even_def Let_def algebra_simps)

lemma round_even_mono:
  assumes "x \<le> y"
  shows "round_even x \<le> round_even y"
proof (cases "\<lfloor>x\<rfloor> = \<lfloor>y\<rfloor>")
  case False
  then have "\<lfloor>x\<rfloor> < \<lfloor>y\<rfloor>"
    using assms floor_mono [of x y] by linarith
  then show ?thesis
    using round_even_cases [of x] round_even_cases [of y] by linarith
next
  case True
  have d: "x - of_int \<lfloor>x\<rfloor> \<le> y - of_int \<lfloor>y\<rfloor>"
    using assms True by simp
  show ?thesis
    using d True unfolding round_even_def Let_def by (auto split: if_splits)
qed

lemma round_even_le: "y \<le> of_int N \<Longrightarrow> round_even y \<le> N"
  using round_even_mono [of y "of_int N"] by simp

lemma round_even_ge: "of_int N \<le> y \<Longrightarrow> N \<le> round_even y"
  using round_even_mono [of "of_int N" y] by simp

lemma round_even_error: "\<bar>of_int (round_even y) - y\<bar> \<le> 1 / 2"
proof -
  have "of_int \<lfloor>y\<rfloor> \<le> y" "y < of_int \<lfloor>y\<rfloor> + 1"
    by linarith+
  then show ?thesis
    unfolding round_even_def Let_def by (auto split: if_splits)
qed

lemma exponent_bounds:
  assumes "0 < x"
  shows "2 powi exponent x \<le> x \<and> x < 2 powi (exponent x + 1)"
proof -
  obtain p q where pq: "quotient_of x = (p, q)" by (cases "quotient_of x")
  have q: "0 < q" using quotient_of_denom_pos [OF pq] .
  have x: "x = of_int p / of_int q" using quotient_of_div [OF pq] .
  have p: "0 < p"
    using assms q unfolding x by (simp add: zero_less_divide_iff)
  let ?a = "bitlen p" and ?b = "bitlen q"
  from bitlen_bounds [OF p] have pb: "2 ^ nat (?a - 1) \<le> p" "p < 2 ^ nat ?a" by auto
  from bitlen_bounds [OF q] have qb: "2 ^ nat (?b - 1) \<le> q" "q < 2 ^ nat ?b" by auto
  have a1: "1 \<le> ?a" using p bitlen_eq_zero_iff [of p] bitlen_nonneg [of p] by linarith
  have b1: "1 \<le> ?b" using q bitlen_eq_zero_iff [of q] bitlen_nonneg [of q] by linarith
  have pw: "(2 :: rat) powi n = of_int (2 ^ nat n)" if "0 \<le> n" for n
    using that by (simp add: power_int_def)
  have pa: "(of_int p :: rat) < 2 powi ?a"
    unfolding pw [of ?a, OF bitlen_nonneg] using pb(2) by (rule iffD2 [OF of_int_less_iff])
  have pa': "(2 :: rat) powi (?a - 1) \<le> of_int p"
    using a1 pb(1) by (subst pw) (simp, rule iffD2 [OF of_int_le_iff])
  have qa: "(of_int q :: rat) < 2 powi ?b"
    unfolding pw [of ?b, OF bitlen_nonneg] using qb(2) by (rule iffD2 [OF of_int_less_iff])
  have qa': "(2 :: rat) powi (?b - 1) \<le> of_int q"
    using b1 qb(1) by (subst pw) (simp, rule iffD2 [OF of_int_le_iff])
  have qpos: "(0 :: rat) < of_int q" using q by simp
  have up: "x < 2 powi (?a - ?b + 1)"
  proof -
    have "x * of_int q = of_int p" unfolding x using q by simp
    also have "\<dots> < 2 powi ?a" by (rule pa)
    also have "\<dots> = 2 powi (?a - ?b + 1) * 2 powi (?b - 1)"
      by (simp flip: power_int_add)
    also have "\<dots> \<le> 2 powi (?a - ?b + 1) * of_int q"
      using qa' by (intro mult_left_mono) auto
    finally show ?thesis using qpos by simp
  qed
  have low: "2 powi (?a - ?b - 1) \<le> x"
  proof -
    have "(2 :: rat) powi (?a - ?b - 1) * of_int q \<le> 2 powi (?a - ?b - 1) * 2 powi ?b"
      using qa by (intro mult_left_mono) auto
    also have "\<dots> = 2 powi (?a - 1)"
      by (simp flip: power_int_add)
    also have "\<dots> \<le> of_int p" by (rule pa')
    also have "\<dots> = x * of_int q" unfolding x using q by simp
    finally show ?thesis using qpos by simp
  qed
  show ?thesis
  proof (cases "2 powi (?a - ?b) \<le> x")
    case True
    then have "exponent x = ?a - ?b" by (simp add: exponent_def pq)
    with True up show ?thesis by simp
  next
    case False
    then have "exponent x = ?a - ?b - 1" by (simp add: exponent_def pq)
    with False low show ?thesis by simp
  qed
qed

lemma exponent_unique:
  assumes "0 < x" "2 powi e \<le> x" "x < 2 powi (e + 1)"
  shows "exponent x = e"
proof -
  from exponent_bounds [OF assms(1)]
  have b: "2 powi exponent x \<le> x" "x < 2 powi (exponent x + 1)" by auto
  have "(2 :: rat) powi e < 2 powi (exponent x + 1)" using assms(2) b(2) by simp
  then have 1: "e < exponent x + 1"
    by (metis power_int_increasing not_le one_le_numeral)
  have "(2 :: rat) powi exponent x < 2 powi (e + 1)" using assms(3) b(1) by simp
  then have 2: "exponent x < e + 1"
    by (metis power_int_increasing not_le one_le_numeral)
  from 1 2 show ?thesis by simp
qed

lemma exponent_mono:
  assumes "0 < x" "x \<le> y"
  shows "exponent x \<le> exponent y"
proof -
  have y: "0 < y" using assms by simp
  from exponent_bounds [OF assms(1)] exponent_bounds [OF y]
  have "(2 :: rat) powi exponent x < 2 powi (exponent y + 1)" using assms(2) by simp
  then have "exponent x < exponent y + 1"
    by (metis power_int_increasing not_le one_le_numeral)
  then show ?thesis by simp
qed

lemma round_double_zero [simp]: "round_double 0 = 0"
  by (simp add: round_double_def)

lemma round_double_pos:
  "0 < x \<Longrightarrow>
     round_double x =
       of_int (round_even (x / 2 powi max (exponent x - 52) (- 1074)))
         * 2 powi max (exponent x - 52) (- 1074)"
  by (simp add: round_double_def Let_def)

lemma round_double_nonneg: "0 \<le> x \<Longrightarrow> 0 \<le> round_double x"
proof (cases "x = 0")
  case False
  assume "0 \<le> x"
  with False have x: "0 < x" by simp
  have "0 \<le> round_even (x / 2 powi max (exponent x - 52) (- 1074))"
    using x by (intro round_even_ge) simp
  then show ?thesis
    unfolding round_double_pos [OF x] by simp
qed simp

lemma pow2_int: "0 \<le> n \<Longrightarrow> (2 :: rat) powi n = of_int (2 ^ nat n)"
  by (simp add: power_int_def)

lemma pow2_less_D: "(2 :: rat) powi m < 2 powi n \<Longrightarrow> m < n"
  by (metis power_int_increasing not_le one_le_numeral)

lemma pow2_mono: "m \<le> n \<Longrightarrow> (2 :: rat) powi m \<le> 2 powi n"
  by (rule power_int_increasing) simp_all

lemma pow2_div: "(2 :: rat) powi m / 2 powi n = 2 powi (m - n)"
  by (simp add: power_int_diff)

text \<open>A value below a power of two rounds to at most that power.\<close>

lemma round_double_le_pow2:
  assumes "0 < x" "x < 2 powi n"
  shows "round_double x \<le> 2 powi n \<or> round_double x = 0"
proof -
  let ?k = "max (exponent x - 52) (- 1074)"
  have q: "(0 :: rat) < 2 powi ?k" by simp
  have lt: "x / 2 powi ?k < 2 powi (n - ?k)"
    using assms(2) q by (simp add: divide_less_eq flip: power_int_add)
  show ?thesis
  proof (cases "0 \<le> n - ?k")
    case True
    have "round_even (x / 2 powi ?k) \<le> 2 ^ nat (n - ?k)"
      using lt unfolding pow2_int [OF True] by (intro round_even_le) simp
    then have "(of_int (round_even (x / 2 powi ?k)) :: rat) \<le> of_int (2 ^ nat (n - ?k))"
      by (rule iffD2 [OF of_int_le_iff])
    then have "(of_int (round_even (x / 2 powi ?k)) :: rat) * 2 powi ?k
        \<le> of_int (2 ^ nat (n - ?k)) * 2 powi ?k"
      using q by (intro mult_right_mono) simp_all
    also have "\<dots> = 2 powi (n - ?k) * 2 powi ?k"
      by (simp only: pow2_int [OF True])
    also have "\<dots> = 2 powi n" by (simp flip: power_int_add)
    finally show ?thesis unfolding round_double_pos [OF assms(1)] by simp
  next
    case False
    then have "n - ?k \<le> - 1" by linarith
    then have "(2 :: rat) powi (n - ?k) \<le> 2 powi (- 1)" by (rule pow2_mono)
    moreover have "(2 :: rat) powi (- 1) = 1 / 2" by (simp add: power_int_minus)
    ultimately have le: "(2 :: rat) powi (n - ?k) \<le> 1 / 2" by (simp only:)
    have half: "x / 2 powi ?k < 1 / 2" by (rule less_le_trans [OF lt le])
    have pos: "0 < x / 2 powi ?k" using assms(1) by simp
    define y where "y = x / 2 powi ?k"
    have y: "0 < y" "y < 1 / 2" using pos half by (simp_all only: y_def)
    then have fl: "\<lfloor>y\<rfloor> = 0" by (intro floor_unique) simp_all
    have "round_even y = 0"
      using y by (simp add: round_even_def fl Let_def)
    then show ?thesis unfolding round_double_pos [OF assms(1)] y_def by simp
  qed
qed

text \<open>A value of at least a normal power of two rounds to at least that power.\<close>

lemma round_double_ge_pow2:
  assumes "0 < x" "- 1022 \<le> exponent x"
  shows "2 powi exponent x \<le> round_double x"
proof -
  define k where "k = max (exponent x - 52) (- 1074)"
  define q :: rat where "q = 2 powi k"
  define N :: int where "N = 2 ^ 52"
  define m where "m = round_even (x / q)"
  have k: "k = exponent x - 52" using assms(2) by (simp add: k_def)
  have q: "0 < q" by (simp add: q_def)
  have Nq: "of_int N * q = 2 powi exponent x"
    using power_int_add [of "2 :: rat" 52 "exponent x - 52"] by (simp add: N_def q_def k)
  have "of_int N * q \<le> x" unfolding Nq using exponent_bounds [OF assms(1)] by simp
  then have "of_int N \<le> x / q" using q by (simp add: le_divide_eq)
  then have "N \<le> m" unfolding m_def by (rule round_even_ge)
  then have "(of_int N :: rat) \<le> of_int m" by (rule iffD2 [OF of_int_le_iff])
  then have "of_int N * q \<le> of_int m * q" using q by (intro mult_right_mono) simp_all
  then have "2 powi exponent x \<le> of_int m * q" unfolding Nq .
  then show ?thesis
    unfolding round_double_pos [OF assms(1)] m_def q_def k_def .
qed

lemma round_double_mono:
  assumes "0 \<le> x" "x \<le> y"
  shows "round_double x \<le> round_double y"
proof (cases "x = 0")
  case True
  then show ?thesis using assms round_double_nonneg [of y] by simp
next
  case False
  then have x: "0 < x" using assms by simp
  then have y: "0 < y" using assms by simp
  let ?kx = "max (exponent x - 52) (- 1074)"
  let ?ky = "max (exponent y - 52) (- 1074)"
  have e: "exponent x \<le> exponent y" using exponent_mono [OF x assms(2)] .
  show ?thesis
  proof (cases "?kx = ?ky")
    case True
    have "x / 2 powi ?ky \<le> y / 2 powi ?ky"
      using assms(2) by (simp add: divide_right_mono)
    then have "round_even (x / 2 powi ?ky) \<le> round_even (y / 2 powi ?ky)"
      by (rule round_even_mono)
    then have "(of_int (round_even (x / 2 powi ?ky)) :: rat) \<le> of_int (round_even (y / 2 powi ?ky))"
      by (rule iffD2 [OF of_int_le_iff])
    then show ?thesis
      unfolding round_double_pos [OF x] round_double_pos [OF y] True
      by (intro mult_right_mono) simp_all
  next
    case False
    then have lt: "exponent x < exponent y" and norm: "- 1022 \<le> exponent y"
      using e by auto
    have "2 powi exponent y \<le> round_double y"
      using y norm by (rule round_double_ge_pow2)
    moreover have "round_double x \<le> 2 powi exponent y"
    proof -
      have "x < 2 powi (exponent x + 1)" using exponent_bounds [OF x] by simp
      from round_double_le_pow2 [OF x this]
      have "round_double x \<le> 2 powi (exponent x + 1)"
        by (auto simp: less_imp_le)
      also have "\<dots> \<le> 2 powi exponent y" using lt by (intro pow2_mono) simp
      finally show ?thesis .
    qed
    ultimately show ?thesis by simp
  qed
qed

text \<open>Numbers with at most 53 significant bits above the smallest exponent are doubles.\<close>

lemma round_double_representable:
  assumes "0 < m" "m < 2 ^ 53" "- 1074 \<le> k"
  shows "round_double (of_int m * 2 powi k) = of_int m * 2 powi k"
proof -
  let ?y = "of_int m * (2 :: rat) powi k"
  have y: "0 < ?y" using assms(1) by simp
  let ?k' = "max (exponent ?y - 52) (- 1074)"
  have "(of_int m :: rat) < of_int (2 ^ 53)" using assms(2) by (rule iffD2 [OF of_int_less_iff])
  then have "?y < 2 powi 53 * 2 powi k"
    by (intro mult_strict_right_mono) simp_all
  moreover have "(2 :: rat) powi (53 + k) = 2 powi 53 * 2 powi k"
    by (simp add: power_int_add)
  ultimately have "?y < 2 powi (53 + k)" by simp
  then have "(2 :: rat) powi exponent ?y < 2 powi (53 + k)"
    using exponent_bounds [OF y] by simp
  then have "exponent ?y < 53 + k" by (rule pow2_less_D)
  then have kk: "0 \<le> k - ?k'" using assms(3) by simp
  have "?y / 2 powi ?k' = of_int m * 2 powi (k - ?k')"
    by (simp add: power_int_diff)
  also have "\<dots> = of_int (m * 2 ^ nat (k - ?k'))"
    unfolding pow2_int [OF kk] by simp
  finally have "round_even (?y / 2 powi ?k') = m * 2 ^ nat (k - ?k')"
    by (simp only: round_even_of_int)
  then have "round_double ?y = of_int (m * 2 ^ nat (k - ?k')) * 2 powi ?k'"
    unfolding round_double_pos [OF y] by simp
  also have "\<dots> = of_int m * (2 powi (k - ?k') * 2 powi ?k')"
    unfolding pow2_int [OF kk] by simp
  also have "\<dots> = ?y" by (simp flip: power_int_add)
  finally show ?thesis .
qed

lemma round_double_one [simp]: "round_double 1 = 1"
  using round_double_representable [of 1 0] by simp

lemma round_double_idem:
  assumes "0 \<le> x"
  shows "round_double (round_double x) = round_double x"
proof (cases "x = 0")
  case False
  then have x: "0 < x" using assms by simp
  let ?k = "max (exponent x - 52) (- 1074)"
  let ?m = "round_even (x / 2 powi ?k)"
  have rd: "round_double x = of_int ?m * 2 powi ?k" by (rule round_double_pos [OF x])
  have m0: "0 \<le> ?m" using x by (intro round_even_ge) simp
  have "x / 2 powi ?k < 2 powi (exponent x + 1 - ?k)"
    using exponent_bounds [OF x] by (simp add: divide_less_eq flip: power_int_add)
  also have "\<dots> \<le> 2 powi 53" by (intro pow2_mono) simp
  finally have "x / 2 powi ?k \<le> of_int (2 ^ 53)" by simp
  then have m53: "?m \<le> 2 ^ 53" by (rule round_even_le)
  show ?thesis
  proof (cases "?m = 0")
    case True
    then show ?thesis unfolding rd by simp
  next
    case nz: False
    show ?thesis
    proof (cases "?m = 2 ^ 53")
      case False
      with m0 m53 nz have "0 < ?m" "?m < 2 ^ 53" by simp_all
      then show ?thesis
        unfolding rd by (intro round_double_representable) simp_all
    next
      case True
      have "of_int ?m * (2 :: rat) powi ?k = of_int (2 ^ 52) * 2 powi (?k + 1)"
        unfolding True by (simp add: power_int_add)
      moreover have "round_double (of_int (2 ^ 52) * 2 powi (?k + 1)) =
          of_int (2 ^ 52) * 2 powi (?k + 1)"
        by (intro round_double_representable) simp_all
      ultimately show ?thesis unfolding rd by simp
    qed
  qed
qed simp

lemma round_double_error:
  assumes "0 \<le> x" "x \<le> 1"
  shows "\<bar>round_double x - x\<bar> \<le> 1 / 2 ^ 53"
proof (cases "x = 0")
  case False
  then have x: "0 < x" using assms by simp
  let ?k = "max (exponent x - 52) (- 1074)"
  let ?m = "round_even (x / 2 powi ?k)"
  have "(2 :: rat) powi exponent x < 2 powi 1"
    using exponent_bounds [OF x] assms(2) by simp
  then have "exponent x < 1" by (rule pow2_less_D)
  then have k: "?k \<le> - 52" by simp
  have q: "(0 :: rat) < 2 powi ?k" by simp
  have "round_double x - x = (of_int ?m - x / 2 powi ?k) * 2 powi ?k"
    unfolding round_double_pos [OF x] using q by (simp add: algebra_simps)
  then have "\<bar>round_double x - x\<bar> = \<bar>of_int ?m - x / 2 powi ?k\<bar> * 2 powi ?k"
    using q by (simp add: abs_mult)
  also have "\<dots> \<le> (1 / 2) * 2 powi ?k"
    using round_even_error [of "x / 2 powi ?k"] q by (intro mult_right_mono) simp_all
  also have "\<dots> \<le> (1 / 2) * 2 powi (- 52)"
    using k by (intro mult_left_mono pow2_mono) simp_all
  also have "\<dots> = 1 / 2 ^ 53" by (simp add: power_int_minus)
  finally show ?thesis .
qed simp

section \<open>Facts about the helpers\<close>

lemma fold_extend:
  "fold (\<lambda>rule matches. matches @ rule text) rules acc =
     acc @ concat (map (\<lambda>rule. rule text) rules)"
  by (induction rules arbitrary: acc) simp_all

lemma scan_text_concat: "scan_text rules text = concat (map (\<lambda>rule. rule text) rules)"
  by (simp add: scan_text_def fold_extend)

lemma scan_text_empty_iff:
  "scan_text rules text = [] \<longleftrightarrow> (\<forall>rule\<in>set rules. rule text = [])"
  by (simp add: scan_text_concat)

lemma detected_iff:
  "detected rules_true rules_false text \<longleftrightarrow>
     (\<exists>rule\<in>set rules_true. rule text \<noteq> []) \<and> (\<forall>rule\<in>set rules_false. rule text = [])"
  by (simp add: detected_def scan_text_empty_iff)

lemma io_bind_unfold:
  "io_bind m f =
     (case snd m of Inl ab \<Rightarrow> (fst m, Inl ab) | Inr x \<Rightarrow> (fst m @ fst (f x), snd (f x)))"
  by (simp add: io_bind_def split: prod.splits sum.splits)

lemma io_bind_print: "io_bind (io_print e) f = (e # fst (f ()), snd (f ()))"
  by (simp add: io_bind_def io_print_def split: prod.splits)

lemma io_bind_eval_Inr: "io_bind (io_eval (Inr v)) f = f v"
  by (simp add: io_bind_def io_eval_def split: prod.splits)

lemma io_bind_eval_Inl: "io_bind (io_eval (Inl e)) f = ([], Inl (Uncaught e))"
  by (simp add: io_bind_def io_eval_def)

subsection \<open>One row, and the pass over the rows\<close>

text \<open>The counters after one row, with the messages left out.\<close>

lemma scan_row_counters:
  "snd (scan_row fl rt rf ips_i proxies_i (rowid, id_text, headers_text, ip_text) c) =
     (case headers_text of
        None \<Rightarrow> c\<lparr>total := total c + 1\<rparr>
      | Some h \<Rightarrow>
          if h = [] then c\<lparr>total := total c + 1\<rparr>
          else if detected rt rf h then
            (if ip_text \<noteq> ips_i then
               c\<lparr>fail := fail c + 1, fail_not_from_proxy := fail_not_from_proxy c + 1,
                 total_not_from_proxy := total_not_from_proxy c + 1, total := total c + 1\<rparr>
             else c\<lparr>total_from_proxy := total_from_proxy c + 1, total := total c + 1\<rparr>)
          else
            (if ip_text = ips_i then
               c\<lparr>fail := fail c + 1, fail_from_proxy := fail_from_proxy c + 1,
                 total_from_proxy := total_from_proxy c + 1, total := total c + 1\<rparr>
             else c\<lparr>total_not_from_proxy := total_not_from_proxy c + 1, total := total c + 1\<rparr>))"
  by (simp add: scan_row_def split: option.splits)

lemma scan_rows_snd_Cons:
  "snd (scan_rows fl rt rf a pr (r # rows) c) =
     snd (scan_rows fl rt rf a pr rows (snd (scan_row fl rt rf a pr r c)))"
  by (simp split: prod.splits)

lemma scan_rows_fst_Cons:
  "fst (scan_rows fl rt rf a pr (r # rows) c) =
     fst (scan_row fl rt rf a pr r c) @
     fst (scan_rows fl rt rf a pr rows (snd (scan_row fl rt rf a pr r c)))"
  by (simp split: prod.splits)

lemma count_cell_Nil: "count_cell rt rf a cell [] = 0"
  by (simp add: count_cell_def)

lemma count_cell_Cons:
  "count_cell rt rf a cell (r # rows) =
     (if spec_cell rt rf a r = cell then 1 else 0) + count_cell rt rf a cell rows"
  by (simp add: count_cell_def)

lemma count_cell_nonneg: "0 \<le> count_cell rt rf a cell rows"
  by (simp add: count_cell_def)

lemma scan_row_cells:
  "TP (snd (scan_row fl rt rf a pr r c)) =
     TP c + (if spec_cell rt rf a r = Some ''TP'' then 1 else 0)"
  "FP (snd (scan_row fl rt rf a pr r c)) =
     FP c + (if spec_cell rt rf a r = Some ''FP'' then 1 else 0)"
  "TN (snd (scan_row fl rt rf a pr r c)) =
     TN c + (if spec_cell rt rf a r = Some ''TN'' then 1 else 0)"
  "FN (snd (scan_row fl rt rf a pr r c)) =
     FN c + (if spec_cell rt rf a r = Some ''FN'' then 1 else 0)"
  "total (snd (scan_row fl rt rf a pr r c)) = total c + 1"
  by (cases r; simp add: scan_row_counters spec_cell_def TP_def FP_def TN_def FN_def
        split: option.splits)+

lemma scan_rows_cells:
  "TP (snd (scan_rows fl rt rf a pr rows c)) = TP c + count_cell rt rf a (Some ''TP'') rows \<and>
   FP (snd (scan_rows fl rt rf a pr rows c)) = FP c + count_cell rt rf a (Some ''FP'') rows \<and>
   TN (snd (scan_rows fl rt rf a pr rows c)) = TN c + count_cell rt rf a (Some ''TN'') rows \<and>
   FN (snd (scan_rows fl rt rf a pr rows c)) = FN c + count_cell rt rf a (Some ''FN'') rows \<and>
   total (snd (scan_rows fl rt rf a pr rows c)) = total c + int (length rows)"
proof (induction rows arbitrary: c)
  case Nil
  show ?case by (simp add: count_cell_Nil)
next
  case (Cons r rows)
  show ?case
    unfolding scan_rows_snd_Cons
    by (simp only: Cons.IH scan_row_cells count_cell_Cons) simp
qed

lemma zero_cells:
  "TP zero_counters = 0" "FP zero_counters = 0" "TN zero_counters = 0" "FN zero_counters = 0"
  "total zero_counters = 0"
  by (simp_all add: zero_counters_def TP_def FP_def TN_def FN_def)

lemma scan_row_cell_sum:
  "TP (snd (scan_row fl rt rf a pr r c)) + FP (snd (scan_row fl rt rf a pr r c)) +
   TN (snd (scan_row fl rt rf a pr r c)) + FN (snd (scan_row fl rt rf a pr r c)) =
     TP c + FP c + TN c + FN c + (if no_payload r then 0 else 1)"
  by (cases r)
    (simp add: scan_row_counters no_payload_def TP_def FP_def TN_def FN_def split: option.splits)

lemma scan_rows_cell_sum:
  "TP (snd (scan_rows fl rt rf a pr rows c)) + FP (snd (scan_rows fl rt rf a pr rows c)) +
   TN (snd (scan_rows fl rt rf a pr rows c)) + FN (snd (scan_rows fl rt rf a pr rows c)) =
     TP c + FP c + TN c + FN c + int (length (filter (\<lambda>r. \<not> no_payload r) rows))"
proof (induction rows arbitrary: c)
  case Nil
  show ?case by simp
next
  case (Cons r rows)
  show ?case
    unfolding scan_rows_snd_Cons Cons.IH scan_row_cell_sum by simp
qed

lemma length_split_payload:
  "int (length rows) - int (length (filter (\<lambda>r. \<not> no_payload r) rows)) =
     int (length (filter no_payload rows))"
  using sum_length_filter_compl [of no_payload rows] by simp

subsection \<open>Metrics and summary\<close>

lemma precision_of_eq: "precision_of c = Inr (float_precision c)"
  by (simp add: precision_of_def truediv_def float_precision_def)

lemma recall_of_eq: "recall_of c = Inr (float_recall c)"
  by (simp add: recall_of_def truediv_def float_recall_def)

lemma f1_score_of_eq: "f1_score_of p r = Inr (float_f1 p r)"
  by (simp add: f1_score_of_def truediv_def float_f1_def)

lemma percent_eq:
  "percent x tot =
     (if tot = 0 then Inl ZeroDivisionError
      else Inr (round_double (of_int (100 * x) / of_int tot)))"
  by (simp add: percent_def truediv_def)

text \<open>The summary stops at the first percentage when no row was read.\<close>

lemma summary_zero:
  "total c = 0 \<Longrightarrow>
     summary c = ([TotalRequestsParsed 0, ConfusionMatrix], Inl (Uncaught ZeroDivisionError))"
  unfolding summary_def precision_of_eq recall_of_eq f1_score_of_eq io_bind_eval_Inr io_bind_print
  by (simp add: percent_eq io_bind_eval_Inl)

lemma summary_nonzero:
  "total c \<noteq> 0 \<Longrightarrow>
     summary c =
       ([TotalRequestsParsed (total c), ConfusionMatrix,
         Cell ''TP'' (TP c) (round_double (of_int (100 * TP c) / of_int (total c))),
         Cell ''FP'' (FP c) (round_double (of_int (100 * FP c) / of_int (total c))),
         Cell ''TN'' (TN c) (round_double (of_int (100 * TN c) / of_int (total c))),
         Cell ''FN'' (FN c) (round_double (of_int (100 * FN c) / of_int (total c))),
         Blank,
         Precision (float_precision c),
         Recall (float_recall c),
         F1Score (float_f1 (float_precision c) (float_recall c)),
         Blank], Inr ())"
  unfolding summary_def precision_of_eq recall_of_eq f1_score_of_eq io_bind_eval_Inr io_bind_print
  by (simp add: percent_eq io_bind_eval_Inr io_bind_print io_print_def)

text \<open>A quotient of a part by the whole, rounded: it is a float between 0 and 1, within
  \<open>1 / 2 ^ 53\<close> of the exact quotient.\<close>

lemma rounded_ratio:
  assumes "0 \<le> a" "0 \<le> b" "0 < a + b"
  shows "0 \<le> round_double (of_int a / of_int (a + b))"
    and "round_double (of_int a / of_int (a + b)) \<le> 1"
    and "round_double (round_double (of_int a / of_int (a + b))) =
           round_double (of_int a / of_int (a + b))"
    and "\<bar>round_double (of_int a / of_int (a + b)) - of_int a / of_int (a + b)\<bar> \<le> 1 / 2 ^ 53"
proof -
  let ?x = "(of_int a :: rat) / of_int (a + b)"
  have x0: "0 \<le> ?x" using assms by simp
  have x1: "?x \<le> 1" using assms by simp
  show "0 \<le> round_double ?x" using x0 by (rule round_double_nonneg)
  show "round_double ?x \<le> 1" using round_double_mono [OF x0 x1] by simp
  show "round_double (round_double ?x) = round_double ?x" using x0 by (rule round_double_idem)
  show "\<bar>round_double ?x - ?x\<bar> \<le> 1 / 2 ^ 53" using x0 x1 by (rule round_double_error)
qed

lemma float_precision_facts:
  assumes "0 \<le> TP c" "0 \<le> FP c"
  shows "0 \<le> float_precision c" "float_precision c \<le> 1"
    "round_double (float_precision c) = float_precision c"
    "\<bar>float_precision c - spec_precision c\<bar> \<le> 1 / 2 ^ 53"
  using assms rounded_ratio [of "TP c" "FP c"]
  by (simp_all add: float_precision_def spec_precision_def)

lemma float_recall_facts:
  assumes "0 \<le> TP c" "0 \<le> FN c"
  shows "0 \<le> float_recall c" "float_recall c \<le> 1"
    "round_double (float_recall c) = float_recall c"
    "\<bar>float_recall c - spec_recall c\<bar> \<le> 1 / 2 ^ 53"
  using assms rounded_ratio [of "TP c" "FN c"]
  by (simp_all add: float_recall_def spec_recall_def)

text \<open>For two floats that are not negative, the rounded sum is positive exactly when the
  sum is.\<close>

lemma rounded_sum_positive:
  assumes "0 \<le> p" "0 \<le> r" "round_double p = p" "round_double r = r"
  shows "0 < round_double (p + r) \<longleftrightarrow> 0 < p + r"
proof
  assume "0 < round_double (p + r)"
  then have "p + r \<noteq> 0" by auto
  then show "0 < p + r" using assms(1,2) by simp
next
  assume pos: "0 < p + r"
  show "0 < round_double (p + r)"
  proof (cases "0 < p")
    case True
    have "round_double p \<le> round_double (p + r)"
      using assms(1,2) by (intro round_double_mono) simp_all
    then show ?thesis using True assms(3) by simp
  next
    case False
    then have "0 < r" using pos assms(1) by simp
    moreover have "round_double r \<le> round_double (p + r)"
      using assms(1,2) by (intro round_double_mono) simp_all
    ultimately show ?thesis using assms(4) by simp
  qed
qed

lemma float_f1_range:
  assumes "0 \<le> p" "p \<le> 1" "0 \<le> r" "r \<le> 1" "round_double p = p" "round_double r = r"
  shows "0 \<le> float_f1 p r \<and> float_f1 p r \<le> 1"
proof (cases "0 < round_double (p + r)")
  case False
  then show ?thesis by (simp add: float_f1_def)
next
  case True
  define m where "m = round_double (p * r)"
  define d where "d = round_double (2 * m)"
  define s where "s = round_double (p + r)"
  have pr0: "0 \<le> p * r" using assms(1,3) by simp
  have m0: "0 \<le> m" unfolding m_def using pr0 by (rule round_double_nonneg)
  have "p * r \<le> p * 1" using assms by (intro mult_left_mono) auto
  then have "m \<le> round_double p" unfolding m_def using pr0 by (intro round_double_mono) simp_all
  then have mp: "m \<le> p" using assms(5) by simp
  have "p * r \<le> 1 * r" using assms by (intro mult_right_mono) auto
  then have "m \<le> round_double r" unfolding m_def using pr0 by (intro round_double_mono) simp_all
  then have mr: "m \<le> r" using assms(6) by simp
  have d0: "0 \<le> d" unfolding d_def using m0 by (intro round_double_nonneg) simp
  have ds: "d \<le> s" unfolding d_def s_def using m0 mp mr by (intro round_double_mono) simp_all
  have s: "0 < s" using True by (simp add: s_def)
  have q0: "0 \<le> d / s" using d0 s by simp
  have q1: "d / s \<le> 1" using ds s by simp
  have "0 \<le> round_double (d / s)" using q0 by (rule round_double_nonneg)
  moreover have "round_double (d / s) \<le> 1" using round_double_mono [OF q0 q1] by simp
  moreover have "float_f1 p r = round_double (d / s)"
    using True by (simp add: float_f1_def d_def s_def m_def)
  ultimately show ?thesis by simp
qed

subsection \<open>The flags and the messages about single records\<close>

lemma zip3_map:
  "zip (map ip es) (zip (map proxy es) (map yara_ruleset es)) =
     map (\<lambda>e. (ip e, proxy e, yara_ruleset e)) es"
  by (induction es) simp_all

lemma scan_row_snd_flags:
  "snd (scan_row fl rt rf a pr r c) = snd (scan_row fl' rt rf a pr r c)"
  by (cases r) (simp add: scan_row_counters)

lemma scan_rows_snd_flags:
  "snd (scan_rows fl rt rf a pr rows c) = snd (scan_rows fl' rt rf a pr rows c)"
proof (induction rows arbitrary: c)
  case Nil
  show ?case by simp
next
  case (Cons r rows)
  show ?case
    unfolding scan_rows_snd_Cons Cons.IH [of "snd (scan_row fl rt rf a pr r c)"]
    by (simp add: scan_row_snd_flags [of fl rt rf a pr r c fl'])
qed

lemma scan_row_per_record:
  "e \<in> set (fst (scan_row fl rt rf a pr r c)) \<Longrightarrow> per_record e"
  by (cases r) (auto simp: scan_row_def print_list_def split: option.splits if_splits)

lemma scan_rows_per_record:
  "e \<in> set (fst (scan_rows fl rt rf a pr rows c)) \<Longrightarrow> per_record e"
proof (induction rows arbitrary: c)
  case Nil
  then show ?case by simp
next
  case (Cons r rows)
  then show ?case
    unfolding scan_rows_fst_Cons by (auto dest: scan_row_per_record)
qed

lemma summary_lines_scan_rows: "summary_lines (fst (scan_rows fl rt rf a pr rows c)) = []"
  by (auto simp: summary_lines_def filter_empty_conv dest: scan_rows_per_record)

lemma summary_lines_append: "summary_lines (xs @ ys) = summary_lines xs @ summary_lines ys"
  by (simp add: summary_lines_def)

lemma summary_lines_Cons:
  "summary_lines (e # evs) = (if per_record e then summary_lines evs else e # summary_lines evs)"
  by (simp add: summary_lines_def)




text \<open>The pass of one ruleset with its sequencing written out.\<close>

lemma evaluate_unfold:
  "evaluate compile fl rows a pr paths =
     (case load_yara_rules compile (should_be_true paths) of
        (e1, Inl ab) \<Rightarrow> (ParsingRuleset pr # e1, Inl ab)
      | (e1, Inr rt) \<Rightarrow>
          (case load_yara_rules compile
                  (case should_be_false paths of None \<Rightarrow> [] | Some ps \<Rightarrow> ps) of
             (e2, Inl ab) \<Rightarrow> (ParsingRuleset pr # e1 @ e2, Inl ab)
           | (e2, Inr rf) \<Rightarrow>
               (ParsingRuleset pr # e1 @ e2 @ fst (scan_rows fl rt rf a pr rows zero_counters)
                  @ fst (summary (snd (scan_rows fl rt rf a pr rows zero_counters))),
                snd (summary (snd (scan_rows fl rt rf a pr rows zero_counters))))))"
  by (simp add: evaluate_def io_bind_def io_print_def split: prod.splits sum.splits)

lemma evaluate_flags:
  "snd (evaluate compile fl rows a pr paths) = snd (evaluate compile fl' rows a pr paths) \<and>
   summary_lines (fst (evaluate compile fl rows a pr paths)) =
     summary_lines (fst (evaluate compile fl' rows a pr paths))"
  unfolding evaluate_unfold
  by (simp add: summary_lines_append summary_lines_Cons summary_lines_scan_rows
        scan_rows_snd_flags [of fl _ _ a pr rows zero_counters fl']
      split: prod.splits sum.splits)

lemma ruleset_loop_flags:
  "skipped lower fl = skipped lower fl' \<Longrightarrow>
   snd (ruleset_loop lower compile fl rows ids) = snd (ruleset_loop lower compile fl' rows ids) \<and>
   summary_lines (fst (ruleset_loop lower compile fl rows ids)) =
     summary_lines (fst (ruleset_loop lower compile fl' rows ids))"
proof (induction ids)
  case Nil
  show ?case by simp
next
  case (Cons x ids)
  obtain a pr paths where x: "x = (a, pr, paths)" by (cases x)
  note ev = evaluate_flags [of compile fl rows a pr paths fl']
  show ?case
    using Cons ev
    by (simp add: x io_bind_unfold summary_lines_append split: sum.splits)
qed

lemma scan_sqlite_database_unfold:
  "scan_sqlite_database w fl db_path config_file =
     (case safe_load w config_file of
        Inl e \<Rightarrow> ([OpenConfig config_file], Inl (Uncaught e))
      | Inr es \<Rightarrow>
          (case fetchall w db_path of
             Inl e \<Rightarrow>
               ([OpenConfig config_file, SqlQuery db_path, SqliteErrorMsg e], Inl (SystemExit 1))
           | Inr rows \<Rightarrow>
               (OpenConfig config_file # SqlQuery db_path #
                  fst (ruleset_loop (str_lower w) (yara_compile w) fl rows
                         (map (\<lambda>e. (ip e, proxy e, yara_ruleset e)) es)),
                snd (ruleset_loop (str_lower w) (yara_compile w) fl rows
                       (map (\<lambda>e. (ip e, proxy e, yara_ruleset e)) es)))))"
  by (simp add: scan_sqlite_database_def parse_config_def io_bind_print io_bind_eval_Inr
        io_bind_eval_Inl zip3_map split: sum.splits)


subsection \<open>Loading rules and the loop over the rulesets\<close>

text \<open>Loading a list of files: all of them when all compile, and otherwise the files up to
  the first that does not, its diagnostic, and exit status 1.\<close>

lemma load_loop_closed:
  "load_loop compile ps rules =
     (case dropWhile (\<lambda>p. is_compiled (compile p)) ps of
        [] \<Rightarrow> (map LoadingRule ps, Inr (rules @ map (\<lambda>p. rule_of (compile p)) ps))
      | p # _ \<Rightarrow>
          (map LoadingRule (takeWhile (\<lambda>p. is_compiled (compile p)) ps @ [p])
             @ diagnostic (compile p), Inl (SystemExit 1)))"
proof (induction ps arbitrary: rules)
  case Nil
  show ?case by simp
next
  case (Cons q ps)
  show ?case
  proof (cases "compile q")
    case (Compiled rule)
    show ?thesis
      by (cases "dropWhile (\<lambda>p. is_compiled (compile p)) ps")
        (simp_all add: io_bind_print Cons.IH Compiled del: dropWhile_eq_Nil_conv)
  qed (simp_all add: io_bind_print)
qed

lemma load_yara_rules_closed:
  "load_yara_rules compile ps =
     (case dropWhile (\<lambda>p. is_compiled (compile p)) ps of
        [] \<Rightarrow> (map LoadingRule ps, Inr (map (\<lambda>p. rule_of (compile p)) ps))
      | p # _ \<Rightarrow>
          (map LoadingRule (takeWhile (\<lambda>p. is_compiled (compile p)) ps @ [p])
             @ diagnostic (compile p), Inl (SystemExit 1)))"
  by (cases "dropWhile (\<lambda>p. is_compiled (compile p)) ps")
    (simp_all add: load_yara_rules_def load_loop_closed del: dropWhile_eq_Nil_conv)

lemma load_yara_rules_first_bad:
  assumes "\<forall>q\<in>set good. is_compiled (compile q)" "\<not> is_compiled (compile p)"
  shows "load_yara_rules compile (good @ p # rest) =
     (map LoadingRule (good @ [p]) @ diagnostic (compile p), Inl (SystemExit 1))"
proof -
  have "dropWhile (\<lambda>p. is_compiled (compile p)) (good @ p # rest) = p # rest"
    using assms by (simp add: dropWhile_append3)
  moreover have "takeWhile (\<lambda>p. is_compiled (compile p)) (good @ p # rest) = good"
    using assms by (simp add: takeWhile_tail)
  ultimately show ?thesis
    by (simp add: load_yara_rules_closed)
qed

lemma load_yara_rules_all_compiled:
  assumes "\<forall>p\<in>set ps. is_compiled (compile p)"
  shows "load_yara_rules compile ps =
     (map LoadingRule ps, Inr (map (\<lambda>p. rule_of (compile p)) ps))"
proof -
  have "dropWhile (\<lambda>p. is_compiled (compile p)) ps = []" using assms by simp
  then show ?thesis
    by (simp add: load_yara_rules_closed del: dropWhile_eq_Nil_conv)
qed

text \<open>The pass of a ruleset whose files all compile.\<close>

lemma evaluate_all_compiled:
  assumes "\<forall>p\<in>set (rule_files paths). is_compiled (compile p)"
  shows "\<exists>rt rf.
     evaluate compile fl rows a pr paths =
       (ParsingRuleset pr # map LoadingRule (rule_files paths)
          @ fst (scan_rows fl rt rf a pr rows zero_counters)
          @ fst (summary (snd (scan_rows fl rt rf a pr rows zero_counters))),
        snd (summary (snd (scan_rows fl rt rf a pr rows zero_counters))))"
proof -
  have t: "\<forall>p\<in>set (should_be_true paths). is_compiled (compile p)"
    and f: "\<forall>p\<in>set (case should_be_false paths of None \<Rightarrow> [] | Some ps \<Rightarrow> ps).
               is_compiled (compile p)"
    using assms by (auto simp: rule_files_def)
  show ?thesis
    unfolding evaluate_unfold load_yara_rules_all_compiled [OF t]
      load_yara_rules_all_compiled [OF f]
    by (simp add: rule_files_def) blast
qed

lemma evaluate_no_rows:
  assumes "\<forall>p\<in>set (rule_files paths). is_compiled (compile p)"
  shows "evaluate compile fl [] a pr paths =
     (ParsingRuleset pr # map LoadingRule (rule_files paths) @
        [TotalRequestsParsed 0, ConfusionMatrix],
      Inl (Uncaught ZeroDivisionError))"
  using evaluate_all_compiled [OF assms, of fl "[]" a pr]
  by (auto simp: summary_zero zero_cells)

lemma evaluate_completes:
  assumes "\<forall>p\<in>set (rule_files paths). is_compiled (compile p)" "rows \<noteq> []"
  shows "snd (evaluate compile fl rows a pr paths) = Inr ()"
proof -
  from evaluate_all_compiled [OF assms(1), of fl rows a pr]
  obtain rt rf where
    "snd (evaluate compile fl rows a pr paths) =
       snd (summary (snd (scan_rows fl rt rf a pr rows zero_counters)))"
    by auto
  moreover have "total (snd (scan_rows fl rt rf a pr rows zero_counters)) \<noteq> 0"
    using scan_rows_cells [of fl rt rf a pr rows zero_counters] assms(2)
    by (simp add: zero_cells)
  ultimately show ?thesis
    by (simp add: summary_nonzero)
qed

text \<open>The pass of a ruleset with a file that does not compile stops at the first such
  file, be it in \<^verbatim>\<open>should_be_true\<close> or in \<^verbatim>\<open>should_be_false\<close>.\<close>

lemma evaluate_first_bad:
  assumes files: "rule_files paths = good @ p # rest"
    and good: "\<forall>q\<in>set good. is_compiled (compile q)"
    and bad: "\<not> is_compiled (compile p)"
  shows "evaluate compile fl rows a pr paths =
     (ParsingRuleset pr # map LoadingRule (good @ [p]) @ diagnostic (compile p),
      Inl (SystemExit 1))"
proof -
  let ?t = "should_be_true paths"
  let ?f = "case should_be_false paths of None \<Rightarrow> [] | Some ps \<Rightarrow> ps"
  have tf: "?t @ ?f = good @ p # rest" using files by (simp add: rule_files_def)
  show ?thesis
  proof (cases "\<forall>q\<in>set ?t. is_compiled (compile q)")
    case True
    then have "p \<notin> set ?t" using bad by auto
    have len: "length ?t \<le> length good"
    proof (rule ccontr)
      assume "\<not> length ?t \<le> length good"
      then have "length good < length ?t" by simp
      then have "?t ! length good = (?t @ ?f) ! length good" by (simp add: nth_append)
      also have "\<dots> = p" unfolding tf by simp
      finally have "p \<in> set ?t" using \<open>length good < length ?t\<close> nth_mem by metis
      with \<open>p \<notin> set ?t\<close> show False by simp
    qed
    have t: "?t = take (length ?t) good"
      using tf len by (metis append_eq_append_conv_if append_eq_conv_conj)
    have f: "?f = drop (length ?t) good @ p # rest"
      using tf len by (metis append_eq_append_conv_if append_eq_conv_conj)
    have g2: "\<forall>q\<in>set (drop (length ?t) good). is_compiled (compile q)"
      using good by (meson in_set_dropD)
    have g: "good = ?t @ drop (length ?t) good"
      using t by (metis append_take_drop_id)
    have ev: "evaluate compile fl rows a pr paths =
        (ParsingRuleset pr # map LoadingRule ?t @
           map LoadingRule (drop (length ?t) good @ [p]) @ diagnostic (compile p),
         Inl (SystemExit 1))"
      unfolding evaluate_unfold load_yara_rules_all_compiled [OF True]
      by (subst f) (simp add: load_yara_rules_first_bad [OF g2 bad])
    have g': "map LoadingRule good =
        map LoadingRule ?t @ map LoadingRule (drop (length ?t) good)"
      using g by (metis map_append)
    show ?thesis
      unfolding ev by (simp add: g')
  next
    case False
    then obtain q where q: "q \<in> set ?t" "\<not> is_compiled (compile q)" by auto
    have len: "length good < length ?t"
    proof (rule ccontr)
      assume "\<not> length good < length ?t"
      then have "set ?t \<subseteq> set good"
        using tf by (metis append_eq_append_conv_if not_less set_take_subset)
      with q good show False by auto
    qed
    have t: "?t = good @ p # take (length ?t - length good - 1) rest"
    proof -
      have "?t = take (length ?t) (?t @ ?f)" by simp
      also have "\<dots> = take (length ?t) (good @ p # rest)" by (simp only: tf)
      also have "\<dots> = good @ p # take (length ?t - length good - 1) rest"
        using len by (simp add: take_Cons')
      finally show ?thesis .
    qed
    show ?thesis
      unfolding evaluate_unfold
      by (subst t) (simp add: load_yara_rules_first_bad [OF good bad])
  qed
qed

lemma ruleset_loop_append:
  "ruleset_loop lower compile fl rows (xs @ ys) =
     io_bind (ruleset_loop lower compile fl rows xs) (\<lambda>_. ruleset_loop lower compile fl rows ys)"
proof (induction xs)
  case Nil
  show ?case by (simp add: io_bind_def split: prod.splits)
next
  case (Cons x xs)
  obtain a pr paths where x: "x = (a, pr, paths)" by (cases x)
  show ?case
    by (simp add: x Cons io_bind_unfold split: sum.splits)
qed

lemma ruleset_loop_not_skipped:
  "ruleset_loop lower compile fl rows ids =
     ruleset_loop lower compile fl rows
       (filter (\<lambda>(ips_i, proxies_i, paths). \<not> skipped lower fl proxies_i) ids)"
proof (induction ids)
  case Nil
  show ?case by simp
next
  case (Cons x ids)
  obtain a pr paths where x: "x = (a, pr, paths)" by (cases x)
  show ?case using Cons by (simp add: x)
qed

text \<open>Rulesets that are not skipped and whose files all compile complete their passes,
  provided the table has a row.\<close>

lemma ruleset_loop_completes:
  assumes "rows \<noteq> []"
    and "\<forall>e\<in>set es. \<not> skipped lower fl (proxy e) \<and>
           (\<forall>p\<in>set (rule_files (yara_ruleset e)). is_compiled (compile p))"
  shows "snd (ruleset_loop lower compile fl rows
                (map (\<lambda>e. (ip e, proxy e, yara_ruleset e)) es)) = Inr ()"
  using assms(2)
proof (induction es)
  case Nil
  show ?case by simp
next
  case (Cons e es)
  then have ev: "snd (evaluate compile fl rows (ip e) (proxy e) (yara_ruleset e)) = Inr ()"
    using assms(1) by (intro evaluate_completes) simp_all
  show ?case
    using Cons ev by (simp add: io_bind_unfold)
qed

lemma filter_entries:
  "filter (\<lambda>(ips_i, proxies_i, paths). P proxies_i)
     (map (\<lambda>e. (ip e, proxy e, yara_ruleset e)) (es :: proxy_entry list)) =
   map (\<lambda>e. (ip e, proxy e, yara_ruleset e)) (filter (\<lambda>e. P (proxy e)) es)"
  by (induction es) simp_all

section \<open>The classifier\<close>

text \<open>
  Claim C1. On a non-empty payload the test of line 81 holds exactly when some rule of
  the positive set matches the payload and no rule of the negative set does; when both
  sets match, or neither does, it fails. When it holds the row is added to the predicted
  positive side of the matrix (TP or FP), otherwise to the predicted negative side (FN or
  TN).
\<close>

theorem classifier_outcome:
  "headers_text \<noteq> [] \<Longrightarrow>
     (detected rules_true rules_false headers_text \<longleftrightarrow>
        (\<exists>rule\<in>set rules_true. rule headers_text \<noteq> []) \<and>
        (\<forall>rule\<in>set rules_false. rule headers_text = [])) \<and>
     (let c' = snd (scan_row fl rules_true rules_false ips_i proxies_i
                      (rowid, id_text, Some headers_text, ip_text) c)
      in (TP c' + FP c', FN c' + TN c') =
           (if (\<exists>rule\<in>set rules_true. rule headers_text \<noteq> []) \<and>
               (\<forall>rule\<in>set rules_false. rule headers_text = [])
            then (TP c + FP c + 1, FN c + TN c)
            else (TP c + FP c, FN c + TN c + 1)))"
  by (simp add: scan_row_counters detected_iff TP_def FP_def FN_def TN_def Let_def)

text \<open>A positive rule that matches alone detects; with a matching negative rule beside
  it, or with no matching positive rule, nothing is detected.\<close>

theorem classifier_outcome_witness:
  "''Via: acme'' \<noteq> [] \<and>
   detected [\<lambda>t. if t = ''Via: acme'' then [''acme_via''] else []] [] ''Via: acme'' \<and>
   \<not> detected [\<lambda>t. if t = ''Via: acme'' then [''acme_via''] else []]
        [\<lambda>t. [], \<lambda>t. if t = ''Via: acme'' then [''direct''] else []] ''Via: acme'' \<and>
   \<not> detected [\<lambda>t. []] [] ''Via: acme''"
  using
    classifier_outcome [of "''Via: acme''"
      "[\<lambda>t. if t = ''Via: acme'' then [''acme_via''] else []]" "[]"]
    classifier_outcome [of "''Via: acme''"
      "[\<lambda>t. if t = ''Via: acme'' then [''acme_via''] else []]"
      "[\<lambda>t. [], \<lambda>t. if t = ''Via: acme'' then [''direct''] else []]"]
    classifier_outcome [of "''Via: acme''" "[\<lambda>t. []]" "[]"]
  by simp

section \<open>The confusion matrix\<close>

text \<open>
  Claim C2. One row changes the four cells exactly as the table says: the cell the table
  assigns to the row grows by one and the other three stay, and a row without payload
  changes none. Hence after the pass, started from the zero counters of lines 71--76,
  TP (computed as \<open>total_from_proxy - fail_from_proxy\<close>) is the number of rows that
  are detected and whose address equals the ground-truth address, and FP, TN and FN are
  the numbers of rows of their cells. Addresses are compared as they are, character by
  character.
\<close>

theorem confusion_matrix_cells:
  "(let c' = snd (scan_row fl rules_true rules_false ips_i proxies_i r c) in
      TP c' = TP c + (if spec_cell rules_true rules_false ips_i r = Some ''TP'' then 1 else 0) \<and>
      FP c' = FP c + (if spec_cell rules_true rules_false ips_i r = Some ''FP'' then 1 else 0) \<and>
      TN c' = TN c + (if spec_cell rules_true rules_false ips_i r = Some ''TN'' then 1 else 0) \<and>
      FN c' = FN c + (if spec_cell rules_true rules_false ips_i r = Some ''FN'' then 1 else 0)) \<and>
   (let c' = snd (scan_rows fl rules_true rules_false ips_i proxies_i rows zero_counters) in
      TP c' = count_cell rules_true rules_false ips_i (Some ''TP'') rows \<and>
      FP c' = count_cell rules_true rules_false ips_i (Some ''FP'') rows \<and>
      TN c' = count_cell rules_true rules_false ips_i (Some ''TN'') rows \<and>
      FN c' = count_cell rules_true rules_false ips_i (Some ''FN'') rows)"
  by (simp add: Let_def scan_row_cells scan_rows_cells zero_cells)

text \<open>Five rows, one for each cell and one without payload; the address \<open>1.2.3.4\<close> is
  the ground truth, and \<open>1.2.3.5\<close> differs from it.\<close>

theorem confusion_matrix_cells_witness:
  "(let c' = snd (scan_rows \<lparr>verbose = False, list_flag = None, specific_proxy = None\<rparr>
                    [\<lambda>t. if t = ''Via: acme'' then [''acme_via''] else []] [] ''1.2.3.4'' ''Acme''
                    [(1, ''a'', Some ''Via: acme'', ''1.2.3.4''),
                     (2, ''b'', Some ''Via: acme'', ''9.9.9.9''),
                     (3, ''c'', None, ''1.2.3.4''),
                     (4, ''d'', Some ''plain'', ''1.2.3.4''),
                     (5, ''e'', Some ''plain'', ''1.2.3.5'')] zero_counters)
    in (TP c', FP c', TN c', FN c')) = (1, 1, 1, 1)"
  using confusion_matrix_cells [of "\<lparr>verbose = False, list_flag = None, specific_proxy = None\<rparr>"
      "[\<lambda>t. if t = ''Via: acme'' then [''acme_via''] else []]" "[]" "''1.2.3.4''" "''Acme''"
      "(1, ''a'', Some ''Via: acme'', ''1.2.3.4'')" zero_counters
      "[(1, ''a'', Some ''Via: acme'', ''1.2.3.4''),
        (2, ''b'', Some ''Via: acme'', ''9.9.9.9''),
        (3, ''c'', None, ''1.2.3.4''),
        (4, ''d'', Some ''plain'', ''1.2.3.4''),
        (5, ''e'', Some ''plain'', ''1.2.3.5'')]"]
  by (simp add: Let_def count_cell_def spec_cell_def detected_def scan_text_def)

text \<open>
  Claim C4. A row whose payload is absent or empty prints nothing and only adds one to
  \<open>total\<close>; every row adds one to \<open>total\<close>, and adds one to the sum of the four cells
  exactly when it has a payload. So after the pass \<open>total\<close> is the number of rows, the
  cells sum to at most \<open>total\<close>, and the difference is the number of rows without
  payload.
\<close>

theorem empty_payload_rows:
  "scan_row fl rules_true rules_false ips_i proxies_i (rowid, id_text, None, ip_text) c =
     ([], c\<lparr>total := total c + 1\<rparr>) \<and>
   scan_row fl rules_true rules_false ips_i proxies_i (rowid, id_text, Some [], ip_text) c =
     ([], c\<lparr>total := total c + 1\<rparr>) \<and>
   (let c' = snd (scan_row fl rules_true rules_false ips_i proxies_i r c) in
      total c' = total c + 1 \<and>
      TP c' + FP c' + TN c' + FN c' =
        TP c + FP c + TN c + FN c + (if no_payload r then 0 else 1)) \<and>
   (let c' = snd (scan_rows fl rules_true rules_false ips_i proxies_i rows zero_counters) in
      total c' = int (length rows) \<and>
      TP c' + FP c' + TN c' + FN c' \<le> total c' \<and>
      total c' - (TP c' + FP c' + TN c' + FN c') = int (length (filter no_payload rows)))"
proof -
  have none: "scan_row fl rules_true rules_false ips_i proxies_i (rowid, id_text, None, ip_text) c =
     ([], c\<lparr>total := total c + 1\<rparr>)"
    by (simp add: scan_row_def)
  have empty: "scan_row fl rules_true rules_false ips_i proxies_i (rowid, id_text, Some [], ip_text) c =
     ([], c\<lparr>total := total c + 1\<rparr>)"
    by (simp add: scan_row_def)
  have one: "total (snd (scan_row fl rules_true rules_false ips_i proxies_i r c)) = total c + 1"
    by (rule scan_row_cells)
  let ?c = "snd (scan_rows fl rules_true rules_false ips_i proxies_i rows zero_counters)"
  have t: "total ?c = int (length rows)"
    using scan_rows_cells [of fl rules_true rules_false ips_i proxies_i rows zero_counters]
    by (simp add: zero_cells)
  have s: "TP ?c + FP ?c + TN ?c + FN ?c = int (length (filter (\<lambda>r. \<not> no_payload r) rows))"
    by (simp add: scan_rows_cell_sum zero_cells)
  have le: "TP ?c + FP ?c + TN ?c + FN ?c \<le> total ?c"
    unfolding s t by simp
  have deficit: "total ?c - (TP ?c + FP ?c + TN ?c + FN ?c) = int (length (filter no_payload rows))"
    unfolding s t by (rule length_split_payload)
  show ?thesis
    unfolding Let_def using none empty one scan_row_cell_sum t le deficit by blast
qed

text \<open>Three rows, of which one has no payload and one an empty payload: the total is 3
  and one row is in a cell.\<close>

theorem empty_payload_rows_witness:
  "(let c' = snd (scan_rows \<lparr>verbose = True, list_flag = Some ''TN'', specific_proxy = None\<rparr>
                    [\<lambda>t. []] [] ''1.2.3.4'' ''Acme''
                    [(1, ''a'', None, ''1.2.3.4''), (2, ''b'', Some [], ''1.2.3.4''),
                     (3, ''c'', Some ''plain'', ''9.9.9.9'')] zero_counters)
    in (total c', TP c' + FP c' + TN c' + FN c')) = (3, 1)"
  using empty_payload_rows [of "\<lparr>verbose = True, list_flag = Some ''TN'', specific_proxy = None\<rparr>"
      "[\<lambda>t. []]" "[]" "''1.2.3.4''" "''Acme''" 1 "''a''" "''1.2.3.4''" zero_counters
      "(1, ''a'', None, ''1.2.3.4'')"
      "[(1, ''a'', None, ''1.2.3.4''), (2, ''b'', Some [], ''1.2.3.4''),
        (3, ''c'', Some ''plain'', ''9.9.9.9'')]"]
  by (simp add: Let_def no_payload_def del: scan_rows.simps)

text \<open>
  Claim C5. After the pass of one ruleset, started from the zero counters, the four cells
  TP, FP, TN and FN are not negative, the three metrics are computed without an exception,
  and precision, recall and F1 score lie between 0 and 1.
\<close>

theorem cells_and_metrics_in_range:
  "(let c = snd (scan_rows fl rules_true rules_false ips_i proxies_i rows zero_counters) in
      0 \<le> TP c \<and> 0 \<le> FP c \<and> 0 \<le> TN c \<and> 0 \<le> FN c \<and>
      (\<exists>precision recall f1_score.
         precision_of c = Inr precision \<and> recall_of c = Inr recall \<and>
         f1_score_of precision recall = Inr f1_score \<and>
         0 \<le> precision \<and> precision \<le> 1 \<and> 0 \<le> recall \<and> recall \<le> 1 \<and>
         0 \<le> f1_score \<and> f1_score \<le> 1))"
proof -
  let ?c = "snd (scan_rows fl rules_true rules_false ips_i proxies_i rows zero_counters)"
  have cells: "0 \<le> TP ?c" "0 \<le> FP ?c" "0 \<le> TN ?c" "0 \<le> FN ?c"
    using scan_rows_cells [of fl rules_true rules_false ips_i proxies_i rows zero_counters]
    by (simp_all add: zero_cells count_cell_nonneg)
  note pr = float_precision_facts [OF cells(1) cells(2)]
  note rr = float_recall_facts [OF cells(1) cells(4)]
  have fr: "0 \<le> float_f1 (float_precision ?c) (float_recall ?c) \<and>
            float_f1 (float_precision ?c) (float_recall ?c) \<le> 1"
    using pr(1-3) rr(1-3) by (intro float_f1_range)
  show ?thesis
    unfolding Let_def
    using cells precision_of_eq [of ?c] recall_of_eq [of ?c]
      f1_score_of_eq [of "float_precision ?c" "float_recall ?c"] pr(1,2) rr(1,2) fr
    by blast
qed

text \<open>
  Claim C3, with the floats of the script. The script computes the metrics in floats, so
  they are not the exact quotients but the quotients rounded. After the pass of one ruleset the three
  metrics are computed without an exception and are: precision, the float nearest to
  TP/(TP+FP) when TP+FP is positive and 0 otherwise; recall, the float nearest to
  TP/(TP+FN) when TP+FN is positive and 0 otherwise; F1 score, the float evaluation of
  \<^verbatim>\<open>2 * (P * R) / (P + R)\<close>, each operation rounded, when P+R is positive and 0 otherwise.
  Precision and recall are within \<open>1 / 2 ^ 53\<close> of the exact quotients, and when at least
  one row was read the summary ends by printing the three values.
\<close>

theorem metrics_rounded_formulas:
  "(let c = snd (scan_rows fl rules_true rules_false ips_i proxies_i rows zero_counters);
        P = (if TP c + FP c > 0 then round_double (of_int (TP c) / of_int (TP c + FP c)) else 0);
        R = (if TP c + FN c > 0 then round_double (of_int (TP c) / of_int (TP c + FN c)) else 0);
        F = (if P + R > 0
             then round_double (round_double (2 * round_double (P * R)) / round_double (P + R))
             else 0)
    in precision_of c = Inr P \<and> recall_of c = Inr R \<and> f1_score_of P R = Inr F \<and>
       \<bar>P - (if TP c + FP c > 0 then of_int (TP c) / of_int (TP c + FP c) else 0)\<bar>
         \<le> 1 / 2 ^ 53 \<and>
       \<bar>R - (if TP c + FN c > 0 then of_int (TP c) / of_int (TP c + FN c) else 0)\<bar>
         \<le> 1 / 2 ^ 53 \<and>
       drop 7 (fst (summary c)) =
         (if rows = [] then [] else [Precision P, Recall R, F1Score F, Blank]))"
proof -
  let ?c = "snd (scan_rows fl rules_true rules_false ips_i proxies_i rows zero_counters)"
  have cells: "0 \<le> TP ?c" "0 \<le> FP ?c" "0 \<le> TN ?c" "0 \<le> FN ?c"
    using scan_rows_cells [of fl rules_true rules_false ips_i proxies_i rows zero_counters]
    by (simp_all add: zero_cells count_cell_nonneg)
  have tot: "total ?c = int (length rows)"
    using scan_rows_cells [of fl rules_true rules_false ips_i proxies_i rows zero_counters]
    by (simp add: zero_cells)
  note pr = float_precision_facts [OF cells(1) cells(2)]
  note rr = float_recall_facts [OF cells(1) cells(4)]
  have guard: "0 < round_double (float_precision ?c + float_recall ?c) \<longleftrightarrow>
      0 < float_precision ?c + float_recall ?c"
    using pr(1,3) rr(1,3) by (intro rounded_sum_positive)
  have f: "float_f1 (float_precision ?c) (float_recall ?c) =
      (if float_precision ?c + float_recall ?c > 0
       then round_double (round_double (2 * round_double (float_precision ?c * float_recall ?c))
              / round_double (float_precision ?c + float_recall ?c))
       else 0)"
    unfolding float_f1_def using guard by simp
  have s: "drop 7 (fst (summary ?c)) =
      (if rows = [] then []
       else [Precision (float_precision ?c), Recall (float_recall ?c),
             F1Score (float_f1 (float_precision ?c) (float_recall ?c)), Blank])"
    using tot by (cases "rows = []") (simp_all add: summary_zero summary_nonzero)
  have P: "float_precision ?c =
      (if TP ?c + FP ?c > 0 then round_double (of_int (TP ?c) / of_int (TP ?c + FP ?c)) else 0)"
    by (simp add: float_precision_def)
  have R: "float_recall ?c =
      (if TP ?c + FN ?c > 0 then round_double (of_int (TP ?c) / of_int (TP ?c + FN ?c)) else 0)"
    by (simp add: float_recall_def)
  have sp: "spec_precision ?c =
      (if TP ?c + FP ?c > 0 then of_int (TP ?c) / of_int (TP ?c + FP ?c) else 0)"
    by (simp add: spec_precision_def)
  have sr: "spec_recall ?c =
      (if TP ?c + FN ?c > 0 then of_int (TP ?c) / of_int (TP ?c + FN ?c) else 0)"
    by (simp add: spec_recall_def)
  have "precision_of ?c = Inr (float_precision ?c) \<and> recall_of ?c = Inr (float_recall ?c) \<and>
      f1_score_of (float_precision ?c) (float_recall ?c) =
        Inr (float_f1 (float_precision ?c) (float_recall ?c)) \<and>
      \<bar>float_precision ?c - spec_precision ?c\<bar> \<le> 1 / 2 ^ 53 \<and>
      \<bar>float_recall ?c - spec_recall ?c\<bar> \<le> 1 / 2 ^ 53 \<and>
      drop 7 (fst (summary ?c)) =
        (if rows = [] then []
         else [Precision (float_precision ?c), Recall (float_recall ?c),
               F1Score (float_f1 (float_precision ?c) (float_recall ?c)), Blank])"
    using precision_of_eq recall_of_eq f1_score_of_eq pr(4) rr(4) s by blast
  then show ?thesis
    unfolding Let_def f sp sr unfolding P R .
qed

text \<open>One true positive and one false positive: precision is one half, recall is 1, and the
  F1 score is the float \<^verbatim>\<open>0.6666666666666666\<close>, which is
  6004799503160661 / 9007199254740992.\<close>

theorem metrics_rounded_formulas_witness:
  "(let c = snd (scan_rows \<lparr>verbose = False, list_flag = None, specific_proxy = None\<rparr>
                   [\<lambda>t. if t = ''Via: acme'' then [''acme_via''] else []] [] ''1.2.3.4'' ''Acme''
                   [(1, ''a'', Some ''Via: acme'', ''1.2.3.4''),
                    (2, ''b'', Some ''Via: acme'', ''9.9.9.9'')] zero_counters)
    in precision_of c = Inr (1 / 2) \<and> recall_of c = Inr 1 \<and>
       f1_score_of (1 / 2) 1 = Inr (6004799503160661 / 9007199254740992) \<and>
       drop 7 (fst (summary c)) =
         [Precision (1 / 2), Recall 1, F1Score (6004799503160661 / 9007199254740992), Blank])"
proof -
  let ?rows = "[(1, ''a'', Some ''Via: acme'', ''1.2.3.4''),
                (2, ''b'', Some ''Via: acme'', ''9.9.9.9'')] :: row list"
  let ?c = "snd (scan_rows \<lparr>verbose = False, list_flag = None, specific_proxy = None\<rparr>
                   [\<lambda>t. if t = ''Via: acme'' then [''acme_via''] else []] [] ''1.2.3.4'' ''Acme''
                   ?rows zero_counters)"
  have cells: "TP ?c = 1" "FP ?c = 1" "FN ?c = 0"
    by code_simp+
  have rounded: "round_double (1 / 2) = 1 / 2" "round_double 1 = 1"
    "round_double (3 / 2) = 3 / 2" "round_double (2 / 3) = 6004799503160661 / 9007199254740992"
    by code_simp+
  show ?thesis
    using metrics_rounded_formulas [of "\<lparr>verbose = False, list_flag = None, specific_proxy = None\<rparr>"
        "[\<lambda>t. if t = ''Via: acme'' then [''acme_via''] else []]" "[]" "''1.2.3.4''" "''Acme''" ?rows]
    unfolding Let_def cells by (simp add: rounded)
qed

text \<open>The exact formula fails at the same rows: the F1 score computed is not the exact
  value \<open>2 / 3\<close> of \<open>2 P R / (P + R)\<close>.\<close>

theorem metrics_exact_counterexample:
  "(let c = snd (scan_rows \<lparr>verbose = False, list_flag = None, specific_proxy = None\<rparr>
                   [\<lambda>t. if t = ''Via: acme'' then [''acme_via''] else []] [] ''1.2.3.4'' ''Acme''
                   [(1, ''a'', Some ''Via: acme'', ''1.2.3.4''),
                    (2, ''b'', Some ''Via: acme'', ''9.9.9.9'')] zero_counters)
    in precision_of c = Inr (1 / 2) \<and> recall_of c = Inr 1 \<and>
       f1_score_of (1 / 2) 1 \<noteq> Inr (2 * (1 / 2) * 1 / (1 / 2 + 1)))"
  by code_simp

section \<open>The filter on the proxy name\<close>



section \<open>Verbosity and the category filter\<close>

text \<open>
  Claim C7. Two runs that differ only in \<open>verbose\<close> and \<open>list_flag\<close> count the same:
  the counters after a pass over the rows are equal, the runs stop in the same way, and
  their outputs are equal once the messages about single records are taken out, which
  leaves, for every ruleset, its header, the rules loaded and the summary with the total,
  the four cells and the three metrics. (The model is a function of the configuration, the
  rows, the compiler and the flags, so a second run over the same inputs gives the same
  result.)
\<close>

theorem flags_are_observational:
  "snd (scan_rows \<lparr>verbose = v, list_flag = l, specific_proxy = sp\<rparr>
          rules_true rules_false ips_i proxies_i rows c) =
   snd (scan_rows \<lparr>verbose = v', list_flag = l', specific_proxy = sp\<rparr>
          rules_true rules_false ips_i proxies_i rows c) \<and>
   snd (scan_sqlite_database w \<lparr>verbose = v, list_flag = l, specific_proxy = sp\<rparr>
          db_path config_file) =
   snd (scan_sqlite_database w \<lparr>verbose = v', list_flag = l', specific_proxy = sp\<rparr>
          db_path config_file) \<and>
   summary_lines
     (fst (scan_sqlite_database w \<lparr>verbose = v, list_flag = l, specific_proxy = sp\<rparr>
             db_path config_file)) =
   summary_lines
     (fst (scan_sqlite_database w \<lparr>verbose = v', list_flag = l', specific_proxy = sp\<rparr>
             db_path config_file))"
proof -
  let ?fl = "\<lparr>verbose = v, list_flag = l, specific_proxy = sp\<rparr>"
  let ?fl' = "\<lparr>verbose = v', list_flag = l', specific_proxy = sp\<rparr>"
  have sk: "skipped (str_lower w) ?fl = skipped (str_lower w) ?fl'"
    by (rule ext) (simp add: skipped_def)
  note loop = ruleset_loop_flags [OF sk]
  show ?thesis
    unfolding scan_sqlite_database_unfold
    using loop scan_rows_snd_flags [of ?fl rules_true rules_false ips_i proxies_i rows c ?fl']
    by (simp add: summary_lines_Cons split: sum.splits)
qed

text \<open>In the example, the verbose run that also lists the false negatives prints, apart
  from the messages about single records, what the quiet run prints, and both stop at the
  rule file of the second entry.\<close>

theorem flags_are_observational_witness:
  "summary_lines
     (fst (scan_sqlite_database example_world
             \<lparr>verbose = True, list_flag = Some ''FN'', specific_proxy = None\<rparr>
             ''logs.db'' ''config.yaml'')) =
   fst (scan_sqlite_database example_world
          \<lparr>verbose = False, list_flag = None, specific_proxy = None\<rparr>
          ''logs.db'' ''config.yaml'') \<and>
   snd (scan_sqlite_database example_world
          \<lparr>verbose = True, list_flag = Some ''FN'', specific_proxy = None\<rparr>
          ''logs.db'' ''config.yaml'') = Inl (SystemExit 1)"
proof -
  have quiet:
    "summary_lines
       (fst (scan_sqlite_database example_world
               \<lparr>verbose = False, list_flag = None, specific_proxy = None\<rparr>
               ''logs.db'' ''config.yaml'')) =
     fst (scan_sqlite_database example_world
            \<lparr>verbose = False, list_flag = None, specific_proxy = None\<rparr>
            ''logs.db'' ''config.yaml'')"
    by code_simp
  have stop:
    "snd (scan_sqlite_database example_world
            \<lparr>verbose = False, list_flag = None, specific_proxy = None\<rparr>
            ''logs.db'' ''config.yaml'') = Inl (SystemExit 1)"
    by code_simp
  note same = flags_are_observational [of True "Some ''FN''" None _ _ _ _ _ _
      False None example_world "''logs.db''" "''config.yaml''"]
  show ?thesis
    using same quiet stop by simp
qed

section \<open>Rule files that do not compile\<close>

text \<open>
  Claim C8, for the entries that are evaluated. Take the entries that pass the proxy filter, in their order, and
  among them an entry with a rule file that does not compile; let \<open>p\<close> be the first such
  file in the order of loading (\<^verbatim>\<open>should_be_true\<close>, then \<^verbatim>\<open>should_be_false\<close>). If the
  entries before it complete their passes (their rule files compile and the table has a
  row) or there is none before it, then the whole run ends at \<open>p\<close> with exit status 1:
  after the output of the earlier passes come the header of this ruleset, the files loaded
  up to \<open>p\<close>, and one diagnostic line, which is the syntax-error line for a
  \<^verbatim>\<open>yara.SyntaxError\<close> and the other line for any other \<^verbatim>\<open>yara.Error\<close>. Nothing follows:
  no row is scanned and no summary is printed for this ruleset, and no later ruleset is
  started. (A rule file of an entry that the proxy filter skips is never compiled and
  does not end the run.)
\<close>

theorem compile_failure_aborts:
  assumes "safe_load w config_file = Inr entries"
    and "fetchall w db_path = Inr rows"
    and "filter (\<lambda>e. \<not> skipped (str_lower w) fl (proxy e)) entries = before @ e # after"
    and "rows \<noteq> [] \<or> before = []"
    and "\<forall>e'\<in>set before. \<forall>q\<in>set (rule_files (yara_ruleset e')). is_compiled (yara_compile w q)"
    and "rule_files (yara_ruleset e) = good @ p # rest"
    and "\<forall>q\<in>set good. is_compiled (yara_compile w q)"
    and "yara_compile w p = YaraSyntaxError msg \<or> yara_compile w p = YaraError msg"
  shows "scan_sqlite_database w fl db_path config_file =
     (OpenConfig config_file # SqlQuery db_path #
        fst (ruleset_loop (str_lower w) (yara_compile w) fl rows
               (map (\<lambda>e. (ip e, proxy e, yara_ruleset e)) before)) @
        ParsingRuleset (proxy e) # map LoadingRule (good @ [p]) @
        [if yara_compile w p = YaraSyntaxError msg then YaraSyntaxErrorMsg msg
         else YaraErrorMsg msg],
      Inl (SystemExit 1))"
proof -
  let ?lower = "str_lower w" and ?compile = "yara_compile w"
  let ?triple = "\<lambda>e :: proxy_entry. (ip e, proxy e, yara_ruleset e)"
  let ?B = "ruleset_loop ?lower ?compile fl rows (map ?triple before)"
  have bad: "\<not> is_compiled (?compile p)"
    using assms(8) by auto
  have dg: "diagnostic (?compile p) =
      [if ?compile p = YaraSyntaxError msg then YaraSyntaxErrorMsg msg else YaraErrorMsg msg]"
    using assms(8) by auto
  have sel: "\<forall>x\<in>set (before @ e # after). \<not> skipped ?lower fl (proxy x)"
    unfolding assms(3) [symmetric] by simp
  then have ns: "\<not> skipped ?lower fl (proxy e)" by simp
  have completed: "snd ?B = Inr ()"
  proof (cases "rows = []")
    case True
    with assms(4) show ?thesis by simp
  next
    case False
    show ?thesis
      using False by (rule ruleset_loop_completes) (use sel assms(5) in auto)
  qed
  have ev: "evaluate ?compile fl rows (ip e) (proxy e) (yara_ruleset e) =
      (ParsingRuleset (proxy e) # map LoadingRule (good @ [p]) @ diagnostic (?compile p),
       Inl (SystemExit 1))"
    using assms(6,7) bad by (rule evaluate_first_bad)
  have "ruleset_loop ?lower ?compile fl rows (map ?triple entries) =
      ruleset_loop ?lower ?compile fl rows (map ?triple before @ ?triple e # map ?triple after)"
    by (subst ruleset_loop_not_skipped) (simp add: filter_entries assms(3))
  also have "\<dots> = (fst ?B @ ParsingRuleset (proxy e) # map LoadingRule (good @ [p])
                       @ diagnostic (?compile p), Inl (SystemExit 1))"
    unfolding ruleset_loop_append
    by (simp add: io_bind_unfold completed ns ev)
  finally have loop: "ruleset_loop ?lower ?compile fl rows (map ?triple entries) =
      (fst ?B @ ParsingRuleset (proxy e) # map LoadingRule (good @ [p])
         @ diagnostic (?compile p), Inl (SystemExit 1))" .
  show ?thesis
    unfolding scan_sqlite_database_unfold
    by (simp add: assms(1,2) loop dg)
qed

text \<open>In the example the unfiltered run completes the pass of \<open>Acme\<close> and stops in the
  ruleset of \<open>Other\<close> at \<open>broken.yar\<close>, the second file of its \<^verbatim>\<open>should_be_false\<close>
  list, with the syntax-error line.\<close>

theorem compile_failure_aborts_witness:
  "safe_load example_world ''config.yaml'' = Inr example_entries \<and>
   fetchall example_world ''logs.db'' = Inr example_rows \<and>
   filter (\<lambda>e. \<not> skipped (str_lower example_world)
                   \<lparr>verbose = False, list_flag = None, specific_proxy = None\<rparr> (proxy e))
     example_entries = [example_entries ! 0] @ example_entries ! 1 # [] \<and>
   example_rows \<noteq> [] \<and>
   rule_files (yara_ruleset (example_entries ! 0)) = [''acme.yar'', ''direct.yar''] \<and>
   rule_files (yara_ruleset (example_entries ! 1)) =
     [''acme.yar'', ''direct.yar''] @ ''broken.yar'' # [] \<and>
   is_compiled (yara_compile example_world ''acme.yar'') \<and>
   is_compiled (yara_compile example_world ''direct.yar'') \<and>
   yara_compile example_world ''broken.yar'' = YaraSyntaxError ''broken.yar(1): syntax error'' \<and>
   scan_sqlite_database example_world
     \<lparr>verbose = False, list_flag = None, specific_proxy = None\<rparr> ''logs.db'' ''config.yaml'' =
     ([OpenConfig ''config.yaml'', SqlQuery ''logs.db'', ParsingRuleset ''Acme'',
       LoadingRule ''acme.yar'', LoadingRule ''direct.yar'', TotalRequestsParsed 4,
       ConfusionMatrix, Cell ''TP'' 1 25, Cell ''FP'' 1 25, Cell ''TN'' 0 0, Cell ''FN'' 1 25,
       Blank, Precision (1 / 2), Recall (1 / 2), F1Score (1 / 2), Blank,
       ParsingRuleset ''Other'', LoadingRule ''acme.yar'', LoadingRule ''direct.yar'',
       LoadingRule ''broken.yar'', YaraSyntaxErrorMsg ''broken.yar(1): syntax error''],
      Inl (SystemExit 1))"
proof -
  let ?fl = "\<lparr>verbose = False, list_flag = None, specific_proxy = None\<rparr>"
  have cfg: "safe_load example_world ''config.yaml'' = Inr example_entries"
    by (simp add: example_world_def)
  have db: "fetchall example_world ''logs.db'' = Inr example_rows"
    by (simp add: example_world_def)
  have sel: "filter (\<lambda>e. \<not> skipped (str_lower example_world) ?fl (proxy e)) example_entries =
      [example_entries ! 0] @ example_entries ! 1 # []"
    by (simp add: skipped_def example_entries_def)
  have rows: "example_rows \<noteq> []"
    by (simp add: example_rows_def)
  have files0: "rule_files (yara_ruleset (example_entries ! 0)) = [''acme.yar'', ''direct.yar'']"
    by (simp add: example_entries_def rule_files_def)
  have files1: "rule_files (yara_ruleset (example_entries ! 1)) =
      [''acme.yar'', ''direct.yar''] @ ''broken.yar'' # []"
    by (simp add: example_entries_def rule_files_def)
  have acme: "is_compiled (yara_compile example_world ''acme.yar'')"
    and direct: "is_compiled (yara_compile example_world ''direct.yar'')"
    by (simp_all add: example_world_def example_compile_def)
  have broken:
    "yara_compile example_world ''broken.yar'' = YaraSyntaxError ''broken.yar(1): syntax error''"
    by (simp add: example_world_def example_compile_def)
  have before: "\<forall>e'\<in>set [example_entries ! 0].
      \<forall>q\<in>set (rule_files (yara_ruleset e')). is_compiled (yara_compile example_world q)"
    using acme direct by (simp add: files0)
  have good: "\<forall>q\<in>set [''acme.yar'', ''direct.yar'']. is_compiled (yara_compile example_world q)"
    using acme direct by simp
  have first: "fst (ruleset_loop (str_lower example_world) (yara_compile example_world) ?fl
                      example_rows
                      (map (\<lambda>e. (ip e, proxy e, yara_ruleset e)) [example_entries ! 0])) =
      [ParsingRuleset ''Acme'', LoadingRule ''acme.yar'', LoadingRule ''direct.yar'',
       TotalRequestsParsed 4, ConfusionMatrix, Cell ''TP'' 1 25, Cell ''FP'' 1 25,
       Cell ''TN'' 0 0, Cell ''FN'' 1 25, Blank, Precision (1 / 2), Recall (1 / 2),
       F1Score (1 / 2), Blank]"
    by code_simp
  have name: "proxy (example_entries ! 1) = ''Other''"
    by (simp add: example_entries_def)
  note run = compile_failure_aborts [OF cfg db sel disjI1 [OF rows] before files1 good
      disjI1 [OF broken]]
  show ?thesis
    using cfg db sel rows files0 files1 acme direct broken
    unfolding run first name by (simp add: broken)
qed

text \<open>A rule file of a skipped entry that does not compile does not end the run: with the
  filter value \<open>ACME\<close> the file \<open>broken.yar\<close> of the entry \<open>Other\<close> does not compile, and the
  run ends normally without a diagnostic.\<close>

theorem compile_failure_skipped_counterexample:
  "''broken.yar'' \<in> set (rule_files (yara_ruleset (example_entries ! 1))) \<and>
   yara_compile example_world ''broken.yar'' = YaraSyntaxError ''broken.yar(1): syntax error'' \<and>
   snd (scan_sqlite_database example_world
          \<lparr>verbose = False, list_flag = None, specific_proxy = Some ''ACME''\<rparr>
          ''logs.db'' ''config.yaml'') = Inr () \<and>
   YaraSyntaxErrorMsg ''broken.yar(1): syntax error'' \<notin>
     set (fst (scan_sqlite_database example_world
                 \<lparr>verbose = False, list_flag = None, specific_proxy = Some ''ACME''\<rparr>
                 ''logs.db'' ''config.yaml''))"
proof -
  have listed: "''broken.yar'' \<in> set (rule_files (yara_ruleset (example_entries ! 1)))"
    by (simp add: example_entries_def rule_files_def)
  have broken:
    "yara_compile example_world ''broken.yar'' = YaraSyntaxError ''broken.yar(1): syntax error''"
    by (simp add: example_world_def example_compile_def)
  have ends: "snd (scan_sqlite_database example_world
          \<lparr>verbose = False, list_flag = None, specific_proxy = Some ''ACME''\<rparr>
          ''logs.db'' ''config.yaml'') = Inr ()"
    by code_simp
  have silent: "YaraSyntaxErrorMsg ''broken.yar(1): syntax error'' \<notin>
     set (fst (scan_sqlite_database example_world
                 \<lparr>verbose = False, list_flag = None, specific_proxy = Some ''ACME''\<rparr>
                 ''logs.db'' ''config.yaml''))"
    by code_simp
  show ?thesis
    using listed broken ends silent by (intro conjI)
qed

section \<open>The command line\<close>

text \<open>
  Claim C9. Called with fewer than two arguments after the script's name, the script prints
  the usage line and exits with status 1, whatever the configuration, the database and the
  compiler hold: they are not read (the output has neither \<open>OpenConfig\<close> nor \<open>SqlQuery\<close>
  nor any \<open>LoadingRule\<close>).
\<close>

theorem too_few_arguments:
  "length argv < 3 \<Longrightarrow> main w argv = ([Usage], Inl (SystemExit 1))"
  by (simp add: main_def)

theorem too_few_arguments_witness:
  "length [''yara_rule_tester.py'', ''logs.db''] < 3 \<and>
   main example_world [''yara_rule_tester.py'', ''logs.db''] = ([Usage], Inl (SystemExit 1))"
  using too_few_arguments [of "[''yara_rule_tester.py'', ''logs.db'']" example_world]
  by simp

section \<open>The summary of an empty table\<close>

text \<open>
  Claim C10. The summary divides by \<open>total\<close> with no guard: it ends normally exactly
  when \<open>total\<close> is not 0 and raises \<^verbatim>\<open>ZeroDivisionError\<close> otherwise. So when the table
  has no rows, the run stops in the summary of the first ruleset that is not skipped
  (provided its rule files compile): after the header and the rules loaded it prints the
  total 0 and the matrix heading, and the first percentage raises the exception, which
  nothing catches.
\<close>

theorem summary_divides_by_total:
  assumes "safe_load w config_file = Inr entries"
    and "fetchall w db_path = Inr []"
    and "filter (\<lambda>e. \<not> skipped (str_lower w) fl (proxy e)) entries = e # rest"
    and "\<forall>p\<in>set (should_be_true (yara_ruleset e) @
              (case should_be_false (yara_ruleset e) of None \<Rightarrow> [] | Some ps \<Rightarrow> ps)).
           is_compiled (yara_compile w p)"
  shows "scan_sqlite_database w fl db_path config_file =
           ([OpenConfig config_file, SqlQuery db_path, ParsingRuleset (proxy e)] @
              map LoadingRule (should_be_true (yara_ruleset e) @
                (case should_be_false (yara_ruleset e) of None \<Rightarrow> [] | Some ps \<Rightarrow> ps)) @
              [TotalRequestsParsed 0, ConfusionMatrix],
            Inl (Uncaught ZeroDivisionError)) \<and>
         snd (summary c) = (if total c = 0 then Inl (Uncaught ZeroDivisionError) else Inr ())"
proof -
  have files: "\<forall>p\<in>set (rule_files (yara_ruleset e)). is_compiled (yara_compile w p)"
    using assms(4) by (simp add: rule_files_def)
  have "e \<in> set (filter (\<lambda>e. \<not> skipped (str_lower w) fl (proxy e)) entries)"
    unfolding assms(3) by simp
  then have ns: "\<not> skipped (str_lower w) fl (proxy e)" by simp
  have loop: "ruleset_loop (str_lower w) (yara_compile w) fl []
        (map (\<lambda>e. (ip e, proxy e, yara_ruleset e)) entries) =
      (fst (evaluate (yara_compile w) fl [] (ip e) (proxy e) (yara_ruleset e)),
       Inl (Uncaught ZeroDivisionError))"
    by (subst ruleset_loop_not_skipped)
      (simp add: filter_entries assms(3) ns io_bind_unfold evaluate_no_rows [OF files])
  have s: "snd (summary c) = (if total c = 0 then Inl (Uncaught ZeroDivisionError) else Inr ())"
    by (simp add: summary_zero summary_nonzero)
  show ?thesis
    unfolding scan_sqlite_database_unfold
    by (simp add: assms(1,2) loop evaluate_no_rows [OF files] s rule_files_def)
qed

text \<open>In the example, with the empty database.\<close>

theorem summary_divides_by_total_witness:
  "safe_load example_world ''config.yaml'' = Inr example_entries \<and>
   fetchall example_world ''empty.db'' = Inr [] \<and>
   filter (\<lambda>e. \<not> skipped (str_lower example_world)
                   \<lparr>verbose = False, list_flag = None, specific_proxy = None\<rparr> (proxy e))
     example_entries = hd example_entries # tl example_entries \<and>
   is_compiled (yara_compile example_world ''acme.yar'') \<and>
   is_compiled (yara_compile example_world ''direct.yar'') \<and>
   scan_sqlite_database example_world
     \<lparr>verbose = False, list_flag = None, specific_proxy = None\<rparr> ''empty.db'' ''config.yaml'' =
     ([OpenConfig ''config.yaml'', SqlQuery ''empty.db'', ParsingRuleset ''Acme'',
       LoadingRule ''acme.yar'', LoadingRule ''direct.yar'', TotalRequestsParsed 0,
       ConfusionMatrix],
      Inl (Uncaught ZeroDivisionError))"
proof -
  let ?fl = "\<lparr>verbose = False, list_flag = None, specific_proxy = None\<rparr>"
  have cfg: "safe_load example_world ''config.yaml'' = Inr example_entries"
    by (simp add: example_world_def)
  have db: "fetchall example_world ''empty.db'' = Inr []"
    by (simp add: example_world_def)
  have first: "filter (\<lambda>e. \<not> skipped (str_lower example_world) ?fl (proxy e)) example_entries =
      hd example_entries # tl example_entries"
    by (simp add: skipped_def example_entries_def)
  have acme: "is_compiled (yara_compile example_world ''acme.yar'')"
    and direct: "is_compiled (yara_compile example_world ''direct.yar'')"
    by (simp_all add: example_world_def example_compile_def)
  have rules: "\<forall>p\<in>set (should_be_true (yara_ruleset (hd example_entries)) @
              (case should_be_false (yara_ruleset (hd example_entries)) of
                 None \<Rightarrow> [] | Some ps \<Rightarrow> ps)).
           is_compiled (yara_compile example_world p)"
    using acme direct by (simp add: example_entries_def)
  show ?thesis
    using cfg db first acme direct
      summary_divides_by_total [OF cfg db first rules, of zero_counters]
    by (simp add: example_entries_def)
qed

end
